theory Spec2Isabelle
  imports Complex_Main "HOL-Library.Sublist" "HOL-Library.AList"
begin

section \<open>Errors and tensors\<close>

text \<open>
  The Python exceptions that the modelled code and the tensor operations it calls can raise.
  \<open>ValueError\<close> is what \<open>_update_memory\<close> raises on a gradient list of the wrong length
  (the specification calls it \<open>ShapeMismatchError\<close>); \<open>RuntimeError\<close> is what the tensor
  library raises on incompatible shapes; \<open>AttributeError\<close> and \<open>KeyError\<close> come from
  \<open>get_buffer\<close> and \<open>register_buffer\<close>; \<open>IndexError\<close> from a dimension out of range;
  \<open>ZeroDivisionError\<close> from the computation of a standard deviation in the initialisation.
\<close>

datatype error =
  ValueError | RuntimeError | AttributeError | KeyError | IndexError | ZeroDivisionError

text \<open>
  A tensor is its shape together with its elements in row-major order. The element type is
  left open: the update rule only needs \<open>+\<close>, \<open>-\<close>, \<open>*\<close> and \<open>1\<close>, and no law of
  arithmetic is assumed about them, so what is proved about the rule holds for any
  arithmetic on the elements. A tensor of the library always has as many elements as its
  shape says (\<open>wf_tensor\<close>).
\<close>

record 'a tensor =
  shape :: "nat list"
  data :: "'a list"

definition wf_tensor :: "'a tensor \<Rightarrow> bool" where
  "wf_tensor t \<longleftrightarrow> length (data t) = prod_list (shape t)"

definition full :: "nat list \<Rightarrow> 'a \<Rightarrow> 'a tensor" where
  "full shp v = \<lparr>shape = shp, data = replicate (prod_list shp) v\<rparr>"

definition zeros_like :: "'a::zero tensor \<Rightarrow> 'a tensor" where
  "zeros_like t = full (shape t) 0"

text \<open>
  Broadcasting of two shapes, aligned at their last dimension: two sizes are compatible
  when they are equal or one of them is 1. The recursion runs over the reversed shapes.
\<close>

fun broadcast_rev :: "nat list \<Rightarrow> nat list \<Rightarrow> error + nat list" where
  "broadcast_rev [] ys = Inr ys"
| "broadcast_rev (x # xs) [] = Inr (x # xs)"
| "broadcast_rev (x # xs) (y # ys) =
     (case broadcast_rev xs ys of
        Inl e \<Rightarrow> Inl e
      | Inr zs \<Rightarrow>
          if x = y then Inr (x # zs)
          else if x = 1 then Inr (y # zs)
          else if y = 1 then Inr (x # zs)
          else Inl RuntimeError)"

definition broadcast_shapes :: "nat list \<Rightarrow> nat list \<Rightarrow> error + nat list" where
  "broadcast_shapes a b =
     (case broadcast_rev (rev a) (rev b) of Inl e \<Rightarrow> Inl e | Inr zs \<Rightarrow> Inr (rev zs))"

text \<open>Row-major position of a multi-index and back.\<close>

fun unravel :: "nat list \<Rightarrow> nat \<Rightarrow> nat list" where
  "unravel [] j = []"
| "unravel (d # ds) j = (j div prod_list ds) # unravel ds (j mod prod_list ds)"

fun ravel :: "nat list \<Rightarrow> nat list \<Rightarrow> nat" where
  "ravel (d # ds) (i # is) = i * prod_list ds + ravel ds is"
| "ravel _ _ = 0"

text \<open>
  The elements of \<open>t\<close> seen at the broadcast shape \<open>tgt\<close>: position \<open>j\<close> of the result reads
  the element of \<open>t\<close> whose index is that of \<open>j\<close> in the trailing dimensions, with 0 in
  every dimension where \<open>t\<close> has size 1.
\<close>

definition expand :: "nat list \<Rightarrow> 'a tensor \<Rightarrow> 'a list" where
  "expand tgt t =
     map (\<lambda>j. data t !
            ravel (shape t)
              (map2 (\<lambda>d i. if d = 1 then 0 else i) (shape t)
                 (drop (length tgt - length (shape t)) (unravel tgt j))))
         [0..<prod_list tgt]"

definition tadd :: "'a::plus tensor \<Rightarrow> 'a tensor \<Rightarrow> error + 'a tensor" where
  "tadd a b =
     (case broadcast_shapes (shape a) (shape b) of
        Inl e \<Rightarrow> Inl e
      | Inr s \<Rightarrow> Inr \<lparr>shape = s, data = map2 (+) (expand s a) (expand s b)\<rparr>)"


text \<open>
  The product of a zero-dimensional tensor (\<open>eta\<close>, \<open>1 - alpha\<close>, \<open>self.lr\<close>) with a
  tensor: the scalar is broadcast to every element and the shape is that of the tensor.
\<close>

definition smul :: "'a::times \<Rightarrow> 'a tensor \<Rightarrow> 'a tensor" where
  "smul c t = \<lparr>shape = shape t, data = map ((*) c) (data t)\<rparr>"

section \<open>MemoryModule: the buffers and the update rule\<close>

text \<open>
  The state of a \<open>MemoryModule\<close>: the learning rate, the two dimensions, and the ordered
  dictionary of registered buffers (names are unique, registration order is kept).
  \<open>attrs\<close> are the names bound on the instance that are not buffers (methods, \<open>lr\<close>,
  \<open>dim_in\<close>, ...): \<open>register_buffer\<close> refuses them. The module has no submodules, and
  its buffers are distinct tensor objects, never \<open>None\<close>, so \<open>named_buffers()\<close> is the
  dictionary in its order.
\<close>

record 'a MemoryModule =
  lr :: 'a
  dim_in :: int
  dim_out :: int
  attrs :: "string list"
  buffers :: "(string \<times> 'a tensor) list"

definition register_buffer ::
  "string \<Rightarrow> 'a tensor \<Rightarrow> 'a MemoryModule \<Rightarrow> error + 'a MemoryModule" where
  "register_buffer name t m =
     (if CHR ''.'' \<in> set name then Inl KeyError
      else if name = [] then Inl KeyError
      else if name \<in> set (attrs m) \<and> name \<notin> set (map fst (buffers m)) then Inl KeyError
      else Inr (m\<lparr>buffers := AList.update name t (buffers m)\<rparr>))"

definition get_buffer :: "'a MemoryModule \<Rightarrow> string \<Rightarrow> error + 'a tensor" where
  "get_buffer m name =
     (case map_of (buffers m) name of None \<Rightarrow> Inl AttributeError | Some t \<Rightarrow> Inr t)"

definition get_corresponding_surprise_name :: "string \<Rightarrow> string" where
  "get_corresponding_surprise_name name = name @ ''_surprise_tpast''"

definition get_named_weights :: "'a MemoryModule \<Rightarrow> (string \<times> 'a tensor) list" where
  "get_named_weights m = filter (\<lambda>(name, weight). \<not> sublist ''surprise'' name) (buffers m)"


text \<open>
  \<open>_construct_layers\<close>: every weight returned by the variant's \<open>construct_layers\<close> is
  registered, followed by its surprise buffer, a zero tensor of the same shape. The first
  failing registration ends the construction.
\<close>

fun construct_loop ::
  "(string \<times> 'a::zero tensor) list \<Rightarrow> 'a MemoryModule \<Rightarrow> error + 'a MemoryModule" where
  "construct_loop [] m = Inr m"
| "construct_loop ((name, weight) # rest) m =
     (case register_buffer name weight m of
        Inl e \<Rightarrow> Inl e
      | Inr m1 \<Rightarrow>
          (case register_buffer (get_corresponding_surprise_name name) (zeros_like weight) m1 of
             Inl e \<Rightarrow> Inl e
           | Inr m2 \<Rightarrow> construct_loop rest m2))"

text \<open>
  \<open>MemoryModule.__init__\<close>, with the list that the variant's \<open>construct_layers\<close> returns
  and the non-buffer attribute names as parameters.
\<close>

definition MemoryModule_init ::
  "string list \<Rightarrow> (string \<times> 'a::zero tensor) list \<Rightarrow> int \<Rightarrow> int \<Rightarrow> 'a
     \<Rightarrow> error + 'a MemoryModule" where
  "MemoryModule_init as weights di do l =
     construct_loop weights \<lparr>lr = l, dim_in = di, dim_out = do, attrs = as, buffers = []\<rparr>"

text \<open>
  \<open>_update_memory\<close>. The result is the exception raised, if any, the module after the
  call (a raise keeps what was written before it) and the warnings logged by the call.
  The loop runs over \<open>zip(grads, self.get_named_weights())\<close>, a list built before the first
  iteration: \<open>weight\<close> is the tensor at the time of the call, while the past surprise is
  read from the module at each iteration. A gradient that is \<open>None\<close> is \<open>None\<close> here.
\<close>

definition skip_warning :: string where
  "skip_warning = ''Gradient for weight is None. Skipping update.''"

fun update_loop ::
  "'a::{one,plus,minus,times} \<Rightarrow> 'a \<Rightarrow> ('a tensor option \<times> string \<times> 'a tensor) list
     \<Rightarrow> 'a MemoryModule \<Rightarrow> string list \<Rightarrow> error option \<times> 'a MemoryModule \<times> string list" where
  "update_loop eta alpha [] m logged = (None, m, logged)"
| "update_loop eta alpha ((grad, name, weight) # rest) m logged =
     (let sname = get_corresponding_surprise_name name in
      case get_buffer m sname of
        Inl e \<Rightarrow> (Some e, m, logged)
      | Inr past_surprise \<Rightarrow>
          (case grad of
             None \<Rightarrow> update_loop eta alpha rest m (logged @ [skip_warning])
           | Some g \<Rightarrow>
               (case tadd (smul eta past_surprise) (smul (lr m) g) of
                  Inl e \<Rightarrow> (Some e, m, logged)
                | Inr surpise \<Rightarrow>
                    (case register_buffer sname surpise m of
                       Inl e \<Rightarrow> (Some e, m, logged)
                     | Inr m1 \<Rightarrow>
                         (case tadd (smul (1 - alpha) weight) surpise of
                            Inl e \<Rightarrow> (Some e, m1, logged)
                          | Inr new_weight \<Rightarrow>
                              (case register_buffer name new_weight m1 of
                                 Inl e \<Rightarrow> (Some e, m1, logged)
                               | Inr m2 \<Rightarrow> update_loop eta alpha rest m2 logged))))))"

definition update_memory ::
  "'a::{one,plus,minus,times} MemoryModule \<Rightarrow> 'a tensor option list \<Rightarrow> 'a \<Rightarrow> 'a
     \<Rightarrow> error option \<times> 'a MemoryModule \<times> string list" where
  "update_memory m grads eta alpha =
     (if length grads \<noteq> length (get_named_weights m) then (Some ValueError, m, [])
      else update_loop eta alpha (zip grads (get_named_weights m)) m [])"

definition update ::
  "'a::{one,plus,minus,times} MemoryModule \<Rightarrow> 'a tensor option list \<Rightarrow> 'a \<Rightarrow> 'a
     \<Rightarrow> error option \<times> 'a MemoryModule \<times> string list" where
  "update m grads eta alpha = update_memory m grads eta alpha"

section \<open>LinearMemory\<close>

text \<open>
  \<open>x.permute(1, 0)\<close>: the transpose of a matrix; the call raises on a tensor whose number
  of dimensions is not 2.
\<close>

definition permute_1_0 :: "'a tensor \<Rightarrow> error + 'a tensor" where
  "permute_1_0 t =
     (case shape t of
        [r, c] \<Rightarrow>
          Inr \<lparr>shape = [c, r],
               data = map (\<lambda>q. data t ! ((q mod r) * c + q div r)) [0..<c * r]\<rparr>
      | _ \<Rightarrow> Inl RuntimeError)"

text \<open>
  The sum of a list of elements, accumulated from the left, starting at 0.
\<close>

definition sum_elems :: "'a::{zero,plus} list \<Rightarrow> 'a" where
  "sum_elems xs = foldl (\<lambda>acc v. acc + v) 0 xs"

text \<open>
  \<open>a @ b\<close> for a matrix \<open>b\<close> of shape \<open>[n, p]\<close>: \<open>a\<close>, of shape \<open>[..., n]\<close>, is read as
  rows of width \<open>n\<close>, and each row is multiplied with \<open>b\<close>; the result has shape
  \<open>[..., p]\<close>. A zero-dimensional \<open>a\<close> and a mismatch of the inner sizes raise. In this
  program the right operand is always the result of \<open>permute(1, 0)\<close>, a matrix; the last
  branch, for other right operands, is never taken.
\<close>

definition matmul :: "'a::{zero,plus,times} tensor \<Rightarrow> 'a tensor \<Rightarrow> error + 'a tensor" where
  "matmul a b =
     (case shape b of
        [n, p] \<Rightarrow>
          if shape a = [] then Inl RuntimeError
          else if last (shape a) \<noteq> n then Inl RuntimeError
          else
            Inr \<lparr>shape = butlast (shape a) @ [p],
                 data = concat (map (\<lambda>i. map (\<lambda>j.
                            sum_elems (map (\<lambda>k. data a ! (i * n + k) * data b ! (k * p + j)) [0..<n]))
                          [0..<p]) [0..<prod_list (butlast (shape a))])\<rparr>
      | _ \<Rightarrow> Inl RuntimeError)"

text \<open>
  The allocation of an uninitialised tensor: a negative size raises. The values come from
  the random source, a parameter \<open>rng k shp\<close> of the constructors: the elements that
  the \<open>k\<close>-th initialisation of the construction draws for a tensor of shape \<open>shp\<close>.
\<close>

definition torch_empty :: "int list \<Rightarrow> error + nat list" where
  "torch_empty sizes =
     (if list_ex (\<lambda>d. d < 0) sizes then Inl RuntimeError else Inr (map nat sizes))"

definition initialised ::
  "(nat \<Rightarrow> nat list \<Rightarrow> 'a list) \<Rightarrow> nat \<Rightarrow> int list \<Rightarrow> error + 'a tensor" where
  "initialised rng k sizes =
     (case torch_empty sizes of
        Inl e \<Rightarrow> Inl e
      | Inr shp \<Rightarrow> Inr \<lparr>shape = shp, data = rng k shp\<rparr>)"

text \<open>
  \<open>nn.init.xavier_normal_\<close> on an allocated tensor: the fans are the sizes of dimensions
  1 and 0 times the product of the further sizes, a tensor of fewer than two dimensions
  raises \<open>ValueError\<close>, and the standard deviation \<open>sqrt(2 / (fan_in + fan_out))\<close> raises
  \<open>ZeroDivisionError\<close> when both fans are 0. Then the tensor is filled with the draws.
\<close>

definition xavier_normal ::
  "(nat list \<Rightarrow> 'a list) \<Rightarrow> nat list \<Rightarrow> error + 'a tensor" where
  "xavier_normal draws shp =
     (if length shp < 2 then Inl ValueError
      else
        let receptive_field_size = prod_list (drop 2 shp);
            fan_in = shp ! 1 * receptive_field_size;
            fan_out = shp ! 0 * receptive_field_size
        in if fan_in + fan_out = 0 then Inl ZeroDivisionError
           else Inr \<lparr>shape = shp, data = draws shp\<rparr>)"

text \<open>\<open>LinearMemory.construct_layers\<close>: one weight, \<open>model\<close>, of shape \<open>(dim_out, dim_in)\<close>.\<close>

definition construct_layers ::
  "(nat \<Rightarrow> nat list \<Rightarrow> 'a list) \<Rightarrow> int \<Rightarrow> int \<Rightarrow> error + (string \<times> 'a tensor) list" where
  "construct_layers rng di do =
     (case torch_empty [do, di] of
        Inl e \<Rightarrow> Inl e
      | Inr shp \<Rightarrow>
          (case xavier_normal (rng 0) shp of
             Inl e \<Rightarrow> Inl e
           | Inr w \<Rightarrow> Inr [(''model'', w)]))"

definition LinearMemory_init ::
  "(nat \<Rightarrow> nat list \<Rightarrow> 'a::zero list) \<Rightarrow> string list \<Rightarrow> int \<Rightarrow> int \<Rightarrow> 'a
     \<Rightarrow> error + 'a MemoryModule" where
  "LinearMemory_init rng as di do l =
     (case construct_layers rng di do of
        Inl e \<Rightarrow> Inl e
      | Inr weights \<Rightarrow> MemoryModule_init as weights di do l)"

text \<open>
  \<open>LinearMemory.forward\<close>: \<open>(self.model @ x.permute(1,0)).permute(1,0)\<close>. \<open>self.model\<close>
  is the buffer registered under that name.
\<close>

definition LinearMemory_forward ::
  "'a::{zero,plus,times} MemoryModule \<Rightarrow> 'a tensor \<Rightarrow> error + 'a tensor" where
  "LinearMemory_forward m x =
     (case get_buffer m ''model'' of
        Inl e \<Rightarrow> Inl e
      | Inr model \<Rightarrow>
          (case permute_1_0 x of
             Inl e \<Rightarrow> Inl e
           | Inr xt \<Rightarrow>
               (case matmul model xt of
                  Inl e \<Rightarrow> Inl e
                | Inr y \<Rightarrow> permute_1_0 y)))"

section \<open>NeuralMemory: projections, chunked conditioning, recall\<close>

text \<open>
  An affine layer \<open>nn.Linear(in_features, out_features, bias=True)\<close>: its forward is
  \<open>x @ weight.T + bias\<close> on the last dimension of \<open>x\<close>. Its construction allocates the
  weight and the bias and fills them; the filling raises nothing, a tensor without
  elements is left as it is.
\<close>

record 'a Linear =
  weight :: "'a tensor"
  bias :: "'a tensor"

definition Linear_init ::
  "(nat \<Rightarrow> nat list \<Rightarrow> 'a list) \<Rightarrow> nat \<Rightarrow> int \<Rightarrow> int \<Rightarrow> error + 'a Linear" where
  "Linear_init rng k in_features out_features =
     (case initialised rng k [out_features, in_features] of
        Inl e \<Rightarrow> Inl e
      | Inr w \<Rightarrow>
          (case initialised rng (k + 1) [out_features] of
             Inl e \<Rightarrow> Inl e
           | Inr b \<Rightarrow> Inr \<lparr>weight = w, bias = b\<rparr>))"

definition Linear_forward :: "'a::{zero,plus,times} Linear \<Rightarrow> 'a tensor \<Rightarrow> error + 'a tensor" where
  "Linear_forward l x =
     (case permute_1_0 (weight l) of
        Inl e \<Rightarrow> Inl e
      | Inr wt \<Rightarrow>
          (case matmul x wt of
             Inl e \<Rightarrow> Inl e
           | Inr y \<Rightarrow> tadd y (bias l)))"


text \<open>
  \<open>t.narrow(1, start, len)\<close> on a tensor of at least two dimensions: the slice
  \<open>[start, start + len)\<close> of dimension 1, for every index of dimension 0.
\<close>

definition narrow_1 :: "'a tensor \<Rightarrow> nat \<Rightarrow> nat \<Rightarrow> 'a tensor" where
  "narrow_1 t start len =
     (case shape t of
        b # l # rest \<Rightarrow>
          \<lparr>shape = b # len # rest,
           data = concat (map (\<lambda>i. take (len * prod_list rest)
                                      (drop ((i * l + start) * prod_list rest) (data t)))
                            [0..<b])\<rparr>
      | _ \<Rightarrow> t)"

text \<open>
  \<open>torch.split(x, split_size, dim=1)\<close> for an integer \<open>split_size\<close>. The library refuses
  a zero-dimensional tensor, a negative size, a tensor without dimension 1, and size 0
  unless the dimension is empty. Otherwise there are \<open>max(ceil(dim_size / split_size), 1)\<close>
  chunks, each of \<open>split_size\<close> entries of dimension 1 but the last, which has the rest.
\<close>

definition split_1 :: "'a tensor \<Rightarrow> int \<Rightarrow> error + 'a tensor list" where
  "split_1 x split_size =
     (if shape x = [] then Inl RuntimeError
      else if split_size < 0 then Inl RuntimeError
      else if length (shape x) < 2 then Inl IndexError
      else
        let dim_size = shape x ! 1; c = nat split_size in
        if c = 0 \<and> dim_size \<noteq> 0 then Inl RuntimeError
        else
          let num_splits = (if c = 0 then 1 else max ((dim_size + c - 1) div c) 1);
              last_split_size = nat (split_size - (split_size * int num_splits - int dim_size))
          in Inr (map (\<lambda>i. narrow_1 x (i * c) (if i < num_splits - 1 then c else last_split_size))
                    [0..<num_splits]))"

text \<open>
  The state of a \<open>NeuralMemory\<close>: the chunk size, the memory and the three projections
  (\<open>self.key\<close>, \<open>self.value\<close>, \<open>self.query\<close>).
\<close>

record 'a NeuralMemory =
  update_chunk_size :: int
  memory :: "'a MemoryModule"
  key_proj :: "'a Linear"
  value_proj :: "'a Linear"
  query_proj :: "'a Linear"

text \<open>
  \<open>NeuralMemory.__init__\<close>: the chunk size is stored, then the memory and the three
  \<open>dim_in\<close> by \<open>dim_in\<close> projections are built, in this order.
\<close>

definition NeuralMemory_init ::
  "(nat \<Rightarrow> nat list \<Rightarrow> 'a::zero list) \<Rightarrow> string list \<Rightarrow> int \<Rightarrow> int \<Rightarrow> int \<Rightarrow> 'a
     \<Rightarrow> error + 'a NeuralMemory" where
  "NeuralMemory_init rng as di do chunk l =
     (case LinearMemory_init rng as di do l of
        Inl e \<Rightarrow> Inl e
      | Inr mem \<Rightarrow>
          (case Linear_init rng 1 di di of
             Inl e \<Rightarrow> Inl e
           | Inr k \<Rightarrow>
               (case Linear_init rng 3 di di of
                  Inl e \<Rightarrow> Inl e
                | Inr v \<Rightarrow>
                    (case Linear_init rng 5 di di of
                       Inl e \<Rightarrow> Inl e
                     | Inr q \<Rightarrow>
                         Inr \<lparr>update_chunk_size = chunk, memory = mem,
                              key_proj = k, value_proj = v, query_proj = q\<rparr>))))"





section \<open>Notions used in the statements\<close>

text \<open>The names that the loop writes: those of the entries with a gradient.\<close>

definition written :: "('a tensor option \<times> string \<times> 'a tensor) list \<Rightarrow> string set" where
  "written zs = (\<Union>(g, n, w) \<in> set zs.
     if g = None then {} else {n, get_corresponding_surprise_name n})"

text \<open>A module of one weight \<open>model\<close> of shape \<open>(1, 2)\<close>, as \<open>LinearMemory(2, 1, 1)\<close> builds it.\<close>

definition demo_memory :: "int MemoryModule" where
  "demo_memory =
     \<lparr>lr = 1, dim_in = 2, dim_out = 1, attrs = [''lr'', ''dim_in'', ''dim_out''],
      buffers = [(''model'', \<lparr>shape = [1, 2], data = [3, 4]\<rparr>),
                 (''model_surprise_tpast'', \<lparr>shape = [1, 2], data = [0, 0]\<rparr>)]\<rparr>"

text \<open>
  A random source that draws ones only, and the unit that
  \<open>NeuralMemory(dim_in=4, dim_out=4, update_chunk_size=2, lr=1)\<close> builds with it: the
  dimensions and the chunk size of the specification's concrete scenario.
\<close>

definition ones_init :: "nat \<Rightarrow> nat list \<Rightarrow> 'a::one list" where
  "ones_init k shp = replicate (prod_list shp) 1"

definition scenario_unit :: "'a::{zero,one} NeuralMemory" where
  "scenario_unit =
     \<lparr>update_chunk_size = 2,
      memory = \<lparr>lr = 1, dim_in = 4, dim_out = 4, attrs = [],
                buffers = [(''model'', full [4, 4] 1),
                           (''model_surprise_tpast'', full [4, 4] 0)]\<rparr>,
      key_proj = \<lparr>weight = full [4, 4] 1, bias = full [4] 1\<rparr>,
      value_proj = \<lparr>weight = full [4, 4] 1, bias = full [4] 1\<rparr>,
      query_proj = \<lparr>weight = full [4, 4] 1, bias = full [4] 1\<rparr>\<rparr>"

text \<open>
  The buffers that do not carry the surprise suffix, the pairing invariant (names are
  unique and valid, and every such buffer has exactly one buffer of its name followed by
  the suffix, of the same shape), gradient lists that fit the weights, and the state
  after a sequence of calls of \<open>update\<close>, whether they raise or not.
\<close>

definition weight_entries :: "'a MemoryModule \<Rightarrow> (string \<times> 'a tensor) list" where
  "weight_entries m = filter (\<lambda>(name, t). \<not> suffix ''_surprise_tpast'' name) (buffers m)"

definition paired :: "'a MemoryModule \<Rightarrow> bool" where
  "paired m \<longleftrightarrow>
     distinct (map fst (buffers m))
   \<and> list_all (\<lambda>(name, t). CHR ''.'' \<notin> set name \<and> name \<noteq> []) (buffers m)
   \<and> list_all (\<lambda>(name, w).
        case filter (\<lambda>(k, s). k = get_corresponding_surprise_name name) (buffers m) of
          [(k, s)] \<Rightarrow> shape s = shape w
        | _ \<Rightarrow> False) (weight_entries m)"

definition grads_fit :: "'a MemoryModule \<Rightarrow> 'a tensor option list \<Rightarrow> bool" where
  "grads_fit m grads \<longleftrightarrow>
     length grads = length (get_named_weights m)
   \<and> list_all (\<lambda>(grad, name, w).
        case grad of
          None \<Rightarrow> True
        | Some g \<Rightarrow> \<not> isl (broadcast_shapes (shape w) (shape g)))
       (zip grads (get_named_weights m))"

fun update_calls ::
  "'a::{one,plus,minus,times} MemoryModule \<Rightarrow> ('a tensor option list \<times> 'a \<times> 'a) list
     \<Rightarrow> 'a MemoryModule" where
  "update_calls m [] = m"
| "update_calls m ((grads, eta, alpha) # calls) =
     update_calls (fst (snd (update m grads eta alpha))) calls"

text \<open>The same invariant in terms of the lookup, and its form at construction.\<close>

definition pairedP :: "'a MemoryModule \<Rightarrow> bool" where
  "pairedP m \<longleftrightarrow>
     distinct (map fst (buffers m))
   \<and> (\<forall>n \<in> set (map fst (buffers m)). CHR ''.'' \<notin> set n \<and> n \<noteq> [])
   \<and> (\<forall>n w. map_of (buffers m) n = Some w \<and> \<not> suffix ''_surprise_tpast'' n \<longrightarrow>
        (\<exists>s. map_of (buffers m) (get_corresponding_surprise_name n) = Some s
           \<and> shape s = shape w))"

definition pairedZ :: "'a::zero MemoryModule \<Rightarrow> bool" where
  "pairedZ m \<longleftrightarrow>
     distinct (map fst (buffers m))
   \<and> (\<forall>n \<in> set (map fst (buffers m)). CHR ''.'' \<notin> set n \<and> n \<noteq> [])
   \<and> (\<forall>n w. map_of (buffers m) n = Some w \<and> \<not> suffix ''_surprise_tpast'' n \<longrightarrow>
        map_of (buffers m) (get_corresponding_surprise_name n) = Some (zeros_like w))"

text \<open>A module of two weights, after some updates.\<close>

definition demo_memory2 :: "int MemoryModule" where
  "demo_memory2 =
     \<lparr>lr = 2, dim_in = 2, dim_out = 1, attrs = [],
      buffers = [(''a'', \<lparr>shape = [2], data = [1, 2]\<rparr>),
                 (''a_surprise_tpast'', \<lparr>shape = [2], data = [0, 0]\<rparr>),
                 (''b'', \<lparr>shape = [1], data = [5]\<rparr>),
                 (''b_surprise_tpast'', \<lparr>shape = [1], data = [4]\<rparr>)]\<rparr>"







section \<open>Properties of the update rule\<close>

lemma register_buffer_error: "register_buffer n t m = Inl e \<Longrightarrow> e = KeyError"
  by (auto simp: register_buffer_def split: if_splits)

lemma get_buffer_error: "get_buffer m n = Inl e \<Longrightarrow> e = AttributeError"
  by (auto simp: get_buffer_def split: option.splits)

lemma broadcast_rev_error: "broadcast_rev xs ys = Inl e \<Longrightarrow> e = RuntimeError"
  by (induction xs ys rule: broadcast_rev.induct) (auto split: sum.splits if_splits)

lemma broadcast_shapes_error: "broadcast_shapes a b = Inl e \<Longrightarrow> e = RuntimeError"
  by (auto simp: broadcast_shapes_def split: sum.splits dest: broadcast_rev_error)

lemma tadd_error: "tadd a b = Inl e \<Longrightarrow> e = RuntimeError"
  by (auto simp: tadd_def split: sum.splits dest: broadcast_shapes_error)

lemma update_loop_not_ValueError:
  "fst (update_loop eta alpha zs m logged) \<noteq> Some ValueError"
proof (induction zs arbitrary: m logged)
  case Nil
  show ?case by simp
next
  case (Cons z zs)
  obtain grad name weight where z: "z = (grad, name, weight)"
    by (cases z) auto
  show ?case
    using Cons.IH
    by (auto simp: z Let_def split: sum.splits option.splits
        dest: register_buffer_error get_buffer_error tadd_error)
qed

lemma surprise_in_surprise_name:
  "sublist ''surprise'' (get_corresponding_surprise_name n)"
proof -
  have "get_corresponding_surprise_name n = (n @ ''_'') @ ''surprise'' @ ''_tpast''"
    by (simp add: get_corresponding_surprise_name_def)
  then show ?thesis
    unfolding sublist_def by blast
qed

lemma surprise_name_inj [simp]:
  "get_corresponding_surprise_name a = get_corresponding_surprise_name b \<longleftrightarrow> a = b"
  by (simp add: get_corresponding_surprise_name_def)

lemma surprise_name_not_weight:
  "\<not> sublist ''surprise'' n \<Longrightarrow> get_corresponding_surprise_name k \<noteq> n"
  using surprise_in_surprise_name by auto

lemma register_buffer_Inr:
  assumes "register_buffer n t m = Inr m'"
  shows "buffers m' = AList.update n t (buffers m)"
    and "lr m' = lr m" and "attrs m' = attrs m"
    and "dim_in m' = dim_in m" and "dim_out m' = dim_out m"
  using assms by (auto simp: register_buffer_def split: if_splits)

lemma register_buffer_map_of:
  "register_buffer n t m = Inr m' \<Longrightarrow> map_of (buffers m') = (map_of (buffers m))(n \<mapsto> t)"
  by (simp add: register_buffer_Inr(1) update_conv')

lemma get_buffer_cong:
  "map_of (buffers m') n = map_of (buffers m) n \<Longrightarrow> get_buffer m' n = get_buffer m n"
  by (simp add: get_buffer_def)

lemma written_Nil [simp]: "written [] = {}"
  by (simp add: written_def)

lemma written_Cons [simp]:
  "written ((g, n, w) # zs) =
     (if g = None then {} else {n, get_corresponding_surprise_name n}) \<union> written zs"
  by (simp add: written_def)

lemma update_loop_frame:
  assumes "update_loop eta alpha zs m logged = (r, m', logged')"
  shows "lr m' = lr m \<and> attrs m' = attrs m \<and> dim_in m' = dim_in m \<and> dim_out m' = dim_out m
      \<and> (\<forall>n. n \<notin> written zs \<longrightarrow> map_of (buffers m') n = map_of (buffers m) n)"
  using assms
proof (induction zs arbitrary: m logged)
  case Nil
  then show ?case by simp
next
  case (Cons z zs)
  obtain grad name weight where z: "z = (grad, name, weight)"
    by (cases z) auto
  show ?case
  proof (cases grad)
    case None
    with Cons.prems z Cons.IH show ?thesis
      by (auto simp: Let_def split: sum.splits)
  next
    case (Some g)
    show ?thesis
      using Cons.prems Cons.IH
      by (auto simp: z Some Let_def register_buffer_Inr update_conv'
          split: sum.splits)
  qed
qed


lemma update_loop_Cons_success:
  assumes "update_loop eta alpha ((grad, name, w) # zs) m logged = (None, m', logged')"
  obtains (skip) s_old where "grad = None"
      "get_buffer m (get_corresponding_surprise_name name) = Inr s_old"
      "update_loop eta alpha zs m (logged @ [skip_warning]) = (None, m', logged')"
  | (step) g s_old s_new m1 w_new m2 where "grad = Some g"
      "get_buffer m (get_corresponding_surprise_name name) = Inr s_old"
      "tadd (smul eta s_old) (smul (lr m) g) = Inr s_new"
      "register_buffer (get_corresponding_surprise_name name) s_new m = Inr m1"
      "tadd (smul (1 - alpha) w) s_new = Inr w_new"
      "register_buffer name w_new m1 = Inr m2"
      "update_loop eta alpha zs m2 logged = (None, m', logged')"
  using assms
  by (cases grad) (auto simp: Let_def split: sum.splits)

lemma written_names:
  assumes "n \<in> written zs"
  shows "\<exists>z \<in> set zs. n = fst (snd z) \<or> n = get_corresponding_surprise_name (fst (snd z))"
  using assms by (induction zs) (auto split: if_splits)

lemma not_written:
  assumes "name \<notin> set (map (\<lambda>z. fst (snd z)) zs)"
    and "\<forall>z \<in> set zs. \<not> sublist ''surprise'' (fst (snd z))"
    and "\<not> sublist ''surprise'' name"
  shows "name \<notin> written zs" and "get_corresponding_surprise_name name \<notin> written zs"
proof -
  show "name \<notin> written zs"
  proof
    assume "name \<in> written zs"
    then obtain z where z: "z \<in> set zs"
      and "name = fst (snd z) \<or> name = get_corresponding_surprise_name (fst (snd z))"
      using written_names by blast
    then show False
    proof (elim disjE)
      assume "name = fst (snd z)"
      then have "name \<in> set (map (\<lambda>z. fst (snd z)) zs)"
        using z by (simp add: image_iff) blast
      then show False using assms(1) by simp
    next
      assume "name = get_corresponding_surprise_name (fst (snd z))"
      then show False
        using assms(3) surprise_in_surprise_name[of "fst (snd z)"] by simp
    qed
  qed
  show "get_corresponding_surprise_name name \<notin> written zs"
  proof
    assume "get_corresponding_surprise_name name \<in> written zs"
    then obtain z where z: "z \<in> set zs"
      and "get_corresponding_surprise_name name = fst (snd z)
         \<or> get_corresponding_surprise_name name = get_corresponding_surprise_name (fst (snd z))"
      using written_names by blast
    then show False
    proof (elim disjE)
      assume "get_corresponding_surprise_name name = fst (snd z)"
      then show False
        using assms(2) z surprise_in_surprise_name[of name] by metis
    next
      assume "get_corresponding_surprise_name name = get_corresponding_surprise_name (fst (snd z))"
      then have "name = fst (snd z)" by simp
      then have "name \<in> set (map (\<lambda>z. fst (snd z)) zs)"
        using z by (simp add: image_iff) blast
      then show False using assms(1) by simp
    qed
  qed
qed

lemma update_loop_entry:
  assumes "update_loop eta alpha zs m logged = (None, m', logged')"
    and "distinct (map (\<lambda>z. fst (snd z)) zs)"
    and "\<forall>z \<in> set zs. \<not> sublist ''surprise'' (fst (snd z))"
    and "(Some g, name, w) \<in> set zs"
    and "get_buffer m (get_corresponding_surprise_name name) = Inr s_old"
  shows "\<exists>s_new w_new.
      tadd (smul eta s_old) (smul (lr m) g) = Inr s_new
    \<and> tadd (smul (1 - alpha) w) s_new = Inr w_new
    \<and> get_buffer m' (get_corresponding_surprise_name name) = Inr s_new
    \<and> get_buffer m' name = Inr w_new"
  using assms
proof (induction zs arbitrary: m logged)
  case Nil
  then show ?case by simp
next
  case (Cons z zs)
  obtain grad0 name0 w0 where z: "z = (grad0, name0, w0)"
    by (cases z) auto
  have run: "update_loop eta alpha ((grad0, name0, w0) # zs) m logged = (None, m', logged')"
    using Cons.prems(1) z by simp
  have dist: "distinct (map (\<lambda>z. fst (snd z)) zs)" and fresh0: "name0 \<notin> set (map (\<lambda>z. fst (snd z)) zs)"
    using Cons.prems(2) z by auto
  have nosur: "\<forall>z \<in> set zs. \<not> sublist ''surprise'' (fst (snd z))"
    and nosur0: "\<not> sublist ''surprise'' name0"
    using Cons.prems(3) z by auto
  show ?case
  proof (cases "(Some g, name, w) = z")
    case True
    then have eq: "grad0 = Some g" "name0 = name" "w0 = w"
      using z by auto
    have run': "update_loop eta alpha ((Some g, name, w) # zs) m logged = (None, m', logged')"
      using run eq by simp
    from run' show ?thesis
    proof (cases rule: update_loop_Cons_success)
      case (skip s0)
      then show ?thesis by simp
    next
      case (step g0 s0 s_new m1 w_new m2)
      have g0: "g0 = g" and s0: "s0 = s_old"
        using step(1,2) Cons.prems(5) by simp_all
      have neq: "get_corresponding_surprise_name name \<noteq> name"
        using nosur0 eq surprise_name_not_weight by blast
      have "map_of (buffers m2) = (map_of (buffers m))
          (get_corresponding_surprise_name name \<mapsto> s_new, name \<mapsto> w_new)"
        using step(4,6) by (simp add: register_buffer_map_of)
      then have at2: "map_of (buffers m2) (get_corresponding_surprise_name name) = Some s_new"
        "map_of (buffers m2) name = Some w_new"
        using neq by auto
      have "name \<notin> written zs" "get_corresponding_surprise_name name \<notin> written zs"
        using not_written[OF _ nosur] fresh0 nosur0 eq by auto
      then have "map_of (buffers m') (get_corresponding_surprise_name name) = Some s_new"
        "map_of (buffers m') name = Some w_new"
        using update_loop_frame[OF step(7)] at2 by auto
      then show ?thesis
        using step(3,5) g0 s0 by (auto simp: get_buffer_def)
    qed
  next
    case False
    then have mem: "(Some g, name, w) \<in> set zs"
      using Cons.prems(4) by auto
    then have ne: "name \<noteq> name0"
      using fresh0 by force
    have nosur_name: "\<not> sublist ''surprise'' name"
      using nosur mem by force
    from run show ?thesis
    proof (cases rule: update_loop_Cons_success)
      case (skip s0)
      show ?thesis
        using Cons.IH[OF skip(3) dist nosur mem Cons.prems(5)] .
    next
      case (step g0 s0 s1 m1 w1 m2)
      have "map_of (buffers m2) = (map_of (buffers m))
          (get_corresponding_surprise_name name0 \<mapsto> s1, name0 \<mapsto> w1)"
        using step by (simp add: register_buffer_map_of)
      moreover have "get_corresponding_surprise_name name \<noteq> name0"
        using nosur0 surprise_name_not_weight by blast
      ultimately have "get_buffer m2 (get_corresponding_surprise_name name) = Inr s_old"
        using Cons.prems(5) ne by (simp add: get_buffer_def)
      moreover have "lr m2 = lr m"
        using step by (simp add: register_buffer_Inr)
      ultimately show ?thesis
        using Cons.IH[OF step(7) dist nosur mem] by simp
    qed
  qed
qed

lemma update_loop_logged:
  assumes "update_loop eta alpha zs m logged = (None, m', logged')"
  shows "logged' = logged @ replicate (length (filter (\<lambda>z. fst z = None) zs)) skip_warning"
  using assms
proof (induction zs arbitrary: m logged)
  case Nil
  then show ?case by simp
next
  case (Cons z zs)
  obtain grad0 name0 w0 where z: "z = (grad0, name0, w0)"
    by (cases z) auto
  from Cons.prems z have
    "update_loop eta alpha ((grad0, name0, w0) # zs) m logged = (None, m', logged')"
    by simp
  then show ?case
  proof (cases rule: update_loop_Cons_success)
    case (skip s0)
    then show ?thesis
      using Cons.IH[OF skip(3)] z by (simp add: replicate_append_same)
  next
    case (step g0 s0 s1 m1 w1 m2)
    then show ?thesis
      using Cons.IH[OF step(7)] z by simp
  qed
qed

text \<open>
  Claim C2. A call of \<open>update\<close> with a gradient list whose length differs from the number
  of weights raises \<open>ValueError\<close> (the \<open>ShapeMismatchError\<close> of the specification), leaves
  the whole module as it was and logs nothing; a call with a list of the right length
  never raises this error.
\<close>

theorem update_length_mismatch:
  "(length grads \<noteq> length (get_named_weights m) \<longrightarrow>
      update m grads eta alpha = (Some ValueError, m, []))
   \<and> (length grads = length (get_named_weights m) \<longrightarrow>
      fst (update m grads eta alpha) \<noteq> Some ValueError)"
  by (simp add: update_def update_memory_def update_loop_not_ValueError)

theorem update_length_mismatch_witness:
  "length ([] :: int tensor option list) \<noteq> length (get_named_weights demo_memory)
   \<and> update demo_memory [] 2 3 = (Some ValueError, demo_memory, [])
   \<and> length [Some \<lparr>shape = [1, 2], data = [5, 6 :: int]\<rparr>] = length (get_named_weights demo_memory)
   \<and> fst (update demo_memory [Some \<lparr>shape = [1, 2], data = [5, 6]\<rparr>] 2 3) \<noteq> Some ValueError"
proof -
  have short: "length ([] :: int tensor option list) \<noteq> length (get_named_weights demo_memory)"
    by code_simp
  have right: "length [Some \<lparr>shape = [1, 2], data = [5, 6 :: int]\<rparr>]
      = length (get_named_weights demo_memory)"
    by code_simp
  show ?thesis
    using short right
      update_length_mismatch[of "[]" demo_memory 2 3]
      update_length_mismatch[of "[Some \<lparr>shape = [1, 2], data = [5, 6]\<rparr>]" demo_memory 2 3]
    by blast
qed

section \<open>Properties of LinearMemory.forward\<close>

lemma upt_shift: "[a..<a + c] = map (\<lambda>j. a + j) [0..<c]"
  by (induction c) simp_all

lemma upt_Suc_rows: "[0..<Suc r * c] = [0..<r * c] @ map (\<lambda>j. r * c + j) [0..<c]"
proof -
  have "[0..<r * c + c] = [0..<r * c] @ [r * c..<r * c + c]"
    by (rule upt_add_eq_append) simp
  moreover have "[r * c..<r * c + c] = map (\<lambda>j. r * c + j) [0..<c]"
    by (rule upt_shift)
  moreover have "Suc r * c = r * c + c"
    by simp
  ultimately show ?thesis
    by (simp only:)
qed

lemma concat_map_rows:
  "concat (map (\<lambda>i. map (f i) [0..<c]) [0..<r]) = map (\<lambda>q. f (q div c) (q mod c)) [0..<r * c]"
proof (induction r)
  case 0
  show ?case by simp
next
  case (Suc r)
  have "map (\<lambda>q. f (q div c) (q mod c)) (map (\<lambda>j. r * c + j) [0..<c]) = map (f r) [0..<c]"
    by (rule nth_equalityI) simp_all
  then show ?case
    using Suc.IH by (simp only: upt_Suc_rows map_append concat_append upt_Suc_append[OF le0] concat.simps append_Nil2 list.map)
qed

lemma permute_1_0_matrix:
  "shape t = [r, c] \<Longrightarrow>
   permute_1_0 t = Inr \<lparr>shape = [c, r],
      data = map (\<lambda>q. data t ! ((q mod r) * c + q div r)) [0..<c * r]\<rparr>"
  by (simp add: permute_1_0_def)

lemma matmul_matrix:
  "shape a = [r, n] \<Longrightarrow> shape b = [n, p] \<Longrightarrow>
   matmul a b = Inr \<lparr>shape = [r, p],
      data = map (\<lambda>q. sum_elems (map (\<lambda>k. data a ! ((q div p) * n + k) * data b ! (k * p + q mod p)) [0..<n]))
               [0..<r * p]\<rparr>"
  by (simp add: matmul_def concat_map_rows)

text \<open>The tensors that the operations return have as many elements as their shape says.\<close>

lemma full_wf: "wf_tensor (full shp v)"
  by (simp add: wf_tensor_def full_def)

lemma smul_wf: "wf_tensor t \<Longrightarrow> wf_tensor (smul c t)"
  by (simp add: wf_tensor_def smul_def)

lemma tadd_wf: "tadd a b = Inr c \<Longrightarrow> wf_tensor c"
  by (auto simp: tadd_def wf_tensor_def expand_def split: sum.splits)

lemma permute_1_0_wf: "permute_1_0 t = Inr t' \<Longrightarrow> wf_tensor t'"
  by (auto simp: permute_1_0_def wf_tensor_def split: list.splits)

lemma matmul_wf:
  assumes "matmul a b = Inr c"
  shows "wf_tensor c"
proof -
  from assms obtain n p where b: "shape b = [n, p]"
    by (auto simp: matmul_def split: list.splits)
  with assms have "shape c = butlast (shape a) @ [p]"
    and "data c = concat (map (\<lambda>i. map (\<lambda>j.
           sum_elems (map (\<lambda>k. data a ! (i * n + k) * data b ! (k * p + j)) [0..<n]))
         [0..<p]) [0..<prod_list (butlast (shape a))])"
    by (auto simp: matmul_def split: if_splits)
  then show ?thesis
    by (simp add: wf_tensor_def concat_map_rows)
qed

text \<open>
  Claim C7. For a batch \<open>x\<close> of \<open>B \<ge> 1\<close> rows of width \<open>dim_in\<close> and the current weight
  \<open>W\<close> of shape \<open>(dim_out, dim_in)\<close>, \<open>LinearMemory.forward\<close> returns the \<open>B\<close> rows of
  width \<open>dim_out\<close> of the matrix product \<open>x @ W^T\<close>, and nothing else is applied to them.
  Multiplication of elements is assumed commutative, and nothing else.
\<close>

theorem LinearMemory_forward_is_matmul:
  fixes m :: "'a::{zero,plus,ab_semigroup_mult} MemoryModule"
  assumes "get_buffer m ''model'' = Inr W" and "shape W = [dout, din]"
    and "shape x = [B, din]" and "1 \<le> B"
  shows "\<exists>Wt y. permute_1_0 W = Inr Wt \<and> matmul x Wt = Inr y
      \<and> LinearMemory_forward m x = Inr y
      \<and> shape y = [B, dout] \<and> length (data y) = B * dout"
proof -
  define xt where "xt = \<lparr>shape = [din, B],
      data = map (\<lambda>q. data x ! ((q mod B) * din + q div B)) [0..<din * B]\<rparr>"
  define Wt where "Wt = \<lparr>shape = [din, dout],
      data = map (\<lambda>q. data W ! ((q mod dout) * din + q div dout)) [0..<din * dout]\<rparr>"
  define P where "P = \<lparr>shape = [dout, B],
      data = map (\<lambda>q. sum_elems (map (\<lambda>k. data W ! ((q div B) * din + k) * data xt ! (k * B + q mod B)) [0..<din]))
               [0..<dout * B]\<rparr>"
  define y where "y = \<lparr>shape = [B, dout],
      data = map (\<lambda>q. sum_elems (map (\<lambda>k. data x ! ((q div dout) * din + k) * data Wt ! (k * dout + q mod dout)) [0..<din]))
               [0..<B * dout]\<rparr>"
  have xt: "permute_1_0 x = Inr xt"
    using assms(3) by (simp add: permute_1_0_matrix xt_def)
  have Wt: "permute_1_0 W = Inr Wt"
    using assms(2) by (simp add: permute_1_0_matrix Wt_def)
  have P: "matmul W xt = Inr P"
    using assms(2) by (simp add: matmul_matrix[where r = dout and n = din and p = B] xt_def P_def)
  have y: "matmul x Wt = Inr y"
    using assms(3) by (simp add: matmul_matrix[where r = B and n = din and p = dout] Wt_def y_def)
  have xt_nth: "data xt ! (k * B + b) = data x ! (b * din + k)" if "k < din" "b < B" for k b
  proof -
    have "k * B + b < din * B"
    proof -
      have "k * B + b < k * B + B" using that by simp
      also have "\<dots> = Suc k * B" by simp
      also have "\<dots> \<le> din * B" using that by (intro mult_le_mono1) simp
      finally show ?thesis .
    qed
    then show ?thesis
      using that by (simp add: xt_def)
  qed
  have Wt_nth: "data Wt ! (k * dout + j) = data W ! (j * din + k)" if "k < din" "j < dout" for k j
  proof -
    have "k * dout + j < din * dout"
    proof -
      have "k * dout + j < k * dout + dout" using that by simp
      also have "\<dots> = Suc k * dout" by simp
      also have "\<dots> \<le> din * dout" using that by (intro mult_le_mono1) simp
      finally show ?thesis .
    qed
    then show ?thesis
      using that by (simp add: Wt_def)
  qed
  have Py: "permute_1_0 P = Inr y"
  proof -
    have "map (\<lambda>q. data P ! ((q mod dout) * B + q div dout)) [0..<B * dout] = data y"
      unfolding y_def tensor.simps
    proof (rule map_cong[OF refl])
      fix q assume "q \<in> set [0..<B * dout]"
      then have q: "q < B * dout" by simp
      then have dpos: "0 < dout" by (cases dout) auto
      have b: "q div dout < B"
        using q dpos by (simp add: less_mult_imp_div_less mult.commute)
      have o: "q mod dout < dout"
        using dpos by simp
      have idx: "(q mod dout) * B + q div dout < dout * B"
      proof -
        have "(q mod dout) * B + q div dout < (q mod dout) * B + B" using b by simp
        also have "\<dots> = Suc (q mod dout) * B" by simp
        also have "\<dots> \<le> dout * B" using o by (intro mult_le_mono1) simp
        finally show ?thesis .
      qed
      have "data P ! ((q mod dout) * B + q div dout)
          = sum_elems (map (\<lambda>k. data W ! ((q mod dout) * din + k) * data xt ! (k * B + q div dout)) [0..<din])"
        using idx b by (simp add: P_def)
      also have "\<dots> = sum_elems (map (\<lambda>k. data x ! ((q div dout) * din + k) * data Wt ! (k * dout + q mod dout)) [0..<din])"
      proof -
        have "map (\<lambda>k. data W ! ((q mod dout) * din + k) * data xt ! (k * B + q div dout)) [0..<din]
            = map (\<lambda>k. data x ! ((q div dout) * din + k) * data Wt ! (k * dout + q mod dout)) [0..<din]"
          by (rule map_cong[OF refl]) (simp add: xt_nth[OF _ b] Wt_nth[OF _ o] mult.commute)
        then show ?thesis by (rule arg_cong)
      qed
      finally show "data P ! ((q mod dout) * B + q div dout)
          = sum_elems (map (\<lambda>k. data x ! ((q div dout) * din + k) * data Wt ! (k * dout + q mod dout)) [0..<din])" .
    qed
    then show ?thesis
      by (simp add: permute_1_0_def P_def y_def)
  qed
  have "LinearMemory_forward m x = Inr y"
    by (simp add: LinearMemory_forward_def assms(1) xt P Py)
  moreover have "shape y = [B, dout]" "length (data y) = B * dout"
    by (simp_all add: y_def)
  ultimately show ?thesis
    using Wt y by blast
qed

theorem LinearMemory_forward_is_matmul_witness:
  "LinearMemory_forward demo_memory \<lparr>shape = [2, 2], data = [1, 2, 3, 4]\<rparr>
     = Inr \<lparr>shape = [2, 1], data = [11, 25]\<rparr>"
proof -
  let ?W = "\<lparr>shape = [1, 2], data = [3, 4 :: int]\<rparr>"
  let ?x = "\<lparr>shape = [2, 2], data = [1, 2, 3, 4 :: int]\<rparr>"
  have model: "get_buffer demo_memory ''model'' = Inr ?W"
    by code_simp
  have "shape ?W = [1, 2]" and "shape ?x = [2, 2]" and "(1::nat) \<le> 2"
    by simp_all
  from LinearMemory_forward_is_matmul[OF model this]
  obtain Wt y where "permute_1_0 ?W = Inr Wt" and "matmul ?x Wt = Inr y"
    and fwd: "LinearMemory_forward demo_memory ?x = Inr y"
    by blast
  moreover have "permute_1_0 ?W = Inr \<lparr>shape = [2, 1], data = [3, 4]\<rparr>"
    by code_simp
  moreover have "matmul ?x \<lparr>shape = [2, 1], data = [3, 4 :: int]\<rparr>
      = Inr \<lparr>shape = [2, 1], data = [11, 25]\<rparr>"
    by code_simp
  ultimately show ?thesis
    by simp
qed

lemma broadcast_rev_length:
  "broadcast_rev xs ys = Inr zs \<Longrightarrow> length zs = max (length xs) (length ys)"
  by (induction xs ys arbitrary: zs rule: broadcast_rev.induct)
     (auto split: sum.splits if_splits)

lemma broadcast_shapes_length:
  "broadcast_shapes a b = Inr s \<Longrightarrow> length s = max (length a) (length b)"
  by (auto simp: broadcast_shapes_def split: sum.splits dest: broadcast_rev_length)

lemma tadd_shape: "tadd a b = Inr c \<Longrightarrow> broadcast_shapes (shape a) (shape b) = Inr (shape c)"
  by (auto simp: tadd_def split: sum.splits)

lemma permute_1_0_error: "permute_1_0 t = Inl e \<Longrightarrow> e = RuntimeError"
  by (auto simp: permute_1_0_def split: list.splits)

lemma permute_1_0_not_matrix: "length (shape t) \<noteq> 2 \<Longrightarrow> permute_1_0 t = Inl RuntimeError"
  by (auto simp: permute_1_0_def split: list.splits)

lemma matmul_error: "matmul a b = Inl e \<Longrightarrow> e = RuntimeError"
  by (auto simp: matmul_def split: list.splits if_splits)

lemma matmul_dims: "matmul a b = Inr c \<Longrightarrow> length (shape c) = length (shape a)"
  by (auto simp: matmul_def split: list.splits if_splits)

lemma Linear_forward_error: "Linear_forward l x = Inl e \<Longrightarrow> e = RuntimeError"
  by (auto simp: Linear_forward_def split: sum.splits
      dest: permute_1_0_error matmul_error tadd_error)

lemma Linear_forward_dims:
  assumes "Linear_forward l x = Inr y"
  shows "length (shape x) \<le> length (shape y)"
proof -
  from assms obtain wt z where "matmul x wt = Inr z" and "tadd z (bias l) = Inr y"
    by (auto simp: Linear_forward_def split: sum.splits)
  then show ?thesis
    using matmul_dims[of x wt z] broadcast_shapes_length[OF tadd_shape, of z "bias l" y]
    by simp
qed

lemma narrow_1_dims: "length (shape (narrow_1 t start len)) = length (shape t)"
  by (auto simp: narrow_1_def split: list.splits)

lemma split_1_error:
  "split_1 x c = Inl e \<Longrightarrow> 2 \<le> length (shape x) \<Longrightarrow> e = RuntimeError"
  by (auto simp: split_1_def Let_def split: if_splits)

lemma split_1_chunks:
  assumes "split_1 x c = Inr chunks"
  shows "chunks \<noteq> []" and "\<forall>ch \<in> set chunks. length (shape ch) = length (shape x)"
  using assms by (auto simp: split_1_def Let_def narrow_1_dims split: if_splits)

lemma LinearMemory_forward_not_matrix:
  "length (shape x) \<noteq> 2 \<Longrightarrow> isl (LinearMemory_forward m x)"
  by (auto simp: LinearMemory_forward_def permute_1_0_not_matrix split: sum.splits)

text \<open>
  Claim C10. \<open>LinearMemory.forward\<close> of \<open>model.py\<close> is defined on matrices only: on a
  tensor whose number of dimensions is not 2, \<open>permute(1, 0)\<close> raises and \<open>forward\<close>
  returns no result. This is the case of the chunks of an input of three dimensions:
  every chunk of the split has three dimensions, and so has its key projection.
\<close>

theorem forward_needs_two_dimensions:
  "(length (shape x) \<noteq> 2 \<longrightarrow>
      permute_1_0 x = Inl RuntimeError \<and> isl (LinearMemory_forward m x))
   \<and> (length (shape x') = 3 \<and> split_1 x' (update_chunk_size u) = Inr chunks
        \<and> chunk \<in> set chunks \<and> Linear_forward (key_proj u) chunk = Inr k \<longrightarrow>
      length (shape k) \<noteq> 2 \<and> isl (LinearMemory_forward (memory u) k))"
proof (intro conjI impI)
  assume "length (shape x) \<noteq> 2"
  then show "permute_1_0 x = Inl RuntimeError" and "isl (LinearMemory_forward m x)"
    by (simp_all add: permute_1_0_not_matrix LinearMemory_forward_not_matrix)
next
  assume a: "length (shape x') = 3 \<and> split_1 x' (update_chunk_size u) = Inr chunks
      \<and> chunk \<in> set chunks \<and> Linear_forward (key_proj u) chunk = Inr k"
  then have "length (shape chunk) = 3"
    using split_1_chunks(2) by fastforce
  then have "3 \<le> length (shape k)"
    using a Linear_forward_dims[of "key_proj u" chunk k] by simp
  then show "length (shape k) \<noteq> 2"
    by simp
  then show "isl (LinearMemory_forward (memory u) k)"
    by (rule LinearMemory_forward_not_matrix)
qed

theorem forward_needs_two_dimensions_witness:
  "length (shape (full [1, 2, 4] (1::int))) \<noteq> 2
   \<and> permute_1_0 (full [1, 2, 4] (1::int)) = Inl RuntimeError
   \<and> isl (LinearMemory_forward demo_memory (full [1, 2, 4] 1))
   \<and> length (shape (full [1, 5, 4] (1::int))) = 3
   \<and> split_1 (full [1, 5, 4] (1::int)) (update_chunk_size (scenario_unit :: int NeuralMemory))
        = Inr [full [1, 2, 4] 1, full [1, 2, 4] 1, full [1, 1, 4] 1]
   \<and> Linear_forward (key_proj scenario_unit) (full [1, 2, 4] (1::int)) = Inr (full [1, 2, 4] 5)
   \<and> isl (LinearMemory_forward (memory scenario_unit) (full [1, 2, 4] (5::int)))"
proof -
  have d: "length (shape (full [1, 2, 4] (1::int))) \<noteq> 2"
    by (simp add: full_def)
  have three: "length (shape (full [1, 5, 4] (1::int))) = 3"
    by (simp add: full_def)
  have chunks: "split_1 (full [1, 5, 4] (1::int)) (update_chunk_size (scenario_unit :: int NeuralMemory))
      = Inr [full [1, 2, 4] 1, full [1, 2, 4] 1, full [1, 1, 4] 1]"
    by code_simp
  have k: "Linear_forward (key_proj scenario_unit) (full [1, 2, 4] (1::int)) = Inr (full [1, 2, 4] 5)"
    by code_simp
  have mem: "full [1, 2, 4] (1::int) \<in> set [full [1, 2, 4] 1, full [1, 2, 4] 1, full [1, 1, 4] 1]"
    by simp
  show ?thesis
    using d three chunks k mem
      forward_needs_two_dimensions[of "full [1, 2, 4] (1::int)" demo_memory
        "full [1, 5, 4] (1::int)" scenario_unit
        "[full [1, 2, 4] 1, full [1, 2, 4] 1, full [1, 1, 4] 1]"
        "full [1, 2, 4] 1" "full [1, 2, 4] 5"]
    by blast
qed

section \<open>Properties of NeuralMemory\<close>



section \<open>Pairing of weights and surprise buffers\<close>

lemma filter_key_distinct:
  "distinct (map fst al) \<Longrightarrow>
   filter (\<lambda>(k, v). k = x) al = (case map_of al x of None \<Rightarrow> [] | Some v \<Rightarrow> [(x, v)])"
proof (induction al)
  case Nil
  show ?case by simp
next
  case (Cons p al)
  obtain k v where p: "p = (k, v)" by (cases p) auto
  show ?case
  proof (cases "k = x")
    case True
    then have "x \<notin> fst ` set al"
      using Cons.prems p by auto
    then have "map_of al x = None" and "filter (\<lambda>(k, v). k = x) al = []"
      by (force simp: map_of_eq_None_iff filter_empty_conv)+
    then show ?thesis
      using p True by simp
  next
    case False
    then show ?thesis
      using Cons p by simp
  qed
qed

lemma paired_iff: "paired m \<longleftrightarrow> pairedP m"
proof -
  have entry: "(case filter (\<lambda>(k, s). k = x) (buffers m) of [(k, s)] \<Rightarrow> shape s = shp | _ \<Rightarrow> False)
      \<longleftrightarrow> (\<exists>s. map_of (buffers m) x = Some s \<and> shape s = shp)"
    if "distinct (map fst (buffers m))" for x shp
    by (simp add: filter_key_distinct[OF that] split: option.splits)
  show ?thesis
  proof (cases "distinct (map fst (buffers m))")
    case False
    then show ?thesis by (simp add: paired_def pairedP_def)
  next
    case True
    have mem: "(n, w) \<in> set (buffers m) \<longleftrightarrow> map_of (buffers m) n = Some w" for n w
      using True by simp
    show ?thesis
      unfolding paired_def pairedP_def weight_entries_def list_all_iff
      using True by (auto simp: entry[OF True] mem[symmetric])
  qed
qed

lemma shape_smul [simp]: "shape (smul c t) = shape t"
  by (simp add: smul_def)

lemma tadd_isl: "isl (tadd a b) \<longleftrightarrow> isl (broadcast_shapes (shape a) (shape b))"
  by (simp add: tadd_def split: sum.splits)

lemma broadcast_rev_refl: "broadcast_rev xs xs = Inr xs"
  by (induction xs) simp_all

lemma broadcast_rev_absorb: "broadcast_rev xs ys = Inr zs \<Longrightarrow> broadcast_rev xs zs = Inr zs"
  by (induction xs ys arbitrary: zs rule: broadcast_rev.induct)
     (auto simp: broadcast_rev_refl split: sum.splits if_splits)

lemma broadcast_shapes_absorb:
  "broadcast_shapes a b = Inr s \<Longrightarrow> broadcast_shapes a s = Inr s"
  by (auto simp: broadcast_shapes_def split: sum.splits dest: broadcast_rev_absorb)

lemma suffix_surprise_name: "suffix ''_surprise_tpast'' (get_corresponding_surprise_name n)"
  by (simp add: get_corresponding_surprise_name_def suffix_def)

lemma suffix_imp_surprise:
  assumes "suffix ''_surprise_tpast'' n"
  shows "sublist ''surprise'' n"
proof -
  from assms obtain ps where "n = ps @ ''_surprise_tpast''"
    by (auto simp: suffix_def)
  then have "n = get_corresponding_surprise_name ps"
    by (simp add: get_corresponding_surprise_name_def)
  then show ?thesis
    using surprise_in_surprise_name by simp
qed

lemma register_buffer_existing:
  assumes "n \<in> set (map fst (buffers m))" and "CHR ''.'' \<notin> set n" and "n \<noteq> []"
  shows "register_buffer n t m = Inr (m\<lparr>buffers := AList.update n t (buffers m)\<rparr>)"
  using assms by (simp add: register_buffer_def)

lemma surprise_name_valid:
  "CHR ''.'' \<notin> set n \<Longrightarrow>
   CHR ''.'' \<notin> set (get_corresponding_surprise_name n) \<and> get_corresponding_surprise_name n \<noteq> []"
  by (simp add: get_corresponding_surprise_name_def)

lemma update_step:
  assumes P: "pairedP m" and w: "map_of (buffers m) name = Some w"
    and ns: "\<not> sublist ''surprise'' name"
    and s_old: "map_of (buffers m) (get_corresponding_surprise_name name) = Some s_old"
    and s_new: "tadd (smul eta s_old) (smul (lr m) g) = Inr s_new"
  shows "\<exists>m1 w_new m2.
      register_buffer (get_corresponding_surprise_name name) s_new m = Inr m1
    \<and> tadd (smul (1 - alpha) w) s_new = Inr w_new
    \<and> register_buffer name w_new m1 = Inr m2
    \<and> pairedP m2
    \<and> map_of (buffers m2) = (map_of (buffers m))
         (get_corresponding_surprise_name name \<mapsto> s_new, name \<mapsto> w_new)
    \<and> lr m2 = lr m"
proof -
  let ?sn = "get_corresponding_surprise_name name"
  have nsuf: "\<not> suffix ''_surprise_tpast'' name"
    using ns suffix_imp_surprise by blast
  have dist: "distinct (map fst (buffers m))"
    and valid: "\<forall>n \<in> set (map fst (buffers m)). CHR ''.'' \<notin> set n \<and> n \<noteq> []"
    and pairs: "\<forall>n w. map_of (buffers m) n = Some w \<and> \<not> suffix ''_surprise_tpast'' n \<longrightarrow>
        (\<exists>s. map_of (buffers m) (get_corresponding_surprise_name n) = Some s \<and> shape s = shape w)"
    using P unfolding pairedP_def by blast+
  have shape_old: "shape s_old = shape w"
    using pairs w nsuf s_old by fastforce
  have name_key: "name \<in> set (map fst (buffers m))"
    using w by (metis map_of_eq_None_iff option.distinct(1) set_map)
  have sn_key: "?sn \<in> set (map fst (buffers m))"
    using s_old by (metis map_of_eq_None_iff option.distinct(1) set_map)
  have name_valid: "CHR ''.'' \<notin> set name" "name \<noteq> []"
    using valid name_key by auto
  have neq: "?sn \<noteq> name"
    using ns surprise_name_not_weight by blast
  define m1 where "m1 = m\<lparr>buffers := AList.update ?sn s_new (buffers m)\<rparr>"
  have m1: "register_buffer ?sn s_new m = Inr m1"
    using register_buffer_existing[OF sn_key] surprise_name_valid[OF name_valid(1)]
    by (simp add: m1_def)
  have keys1: "map fst (buffers m1) = map fst (buffers m)"
    using sn_key by (simp add: m1_def update_keys)
  have bs: "broadcast_shapes (shape w) (shape g) = Inr (shape s_new)"
    using tadd_shape[OF s_new] shape_old by simp
  have "\<not> isl (tadd (smul (1 - alpha) w) s_new)"
    using broadcast_shapes_absorb[OF bs] by (simp add: tadd_isl)
  then obtain w_new where w_new: "tadd (smul (1 - alpha) w) s_new = Inr w_new"
    by (cases "tadd (smul (1 - alpha) w) s_new") auto
  have shape_new: "shape w_new = shape s_new"
    using tadd_shape[OF w_new] broadcast_shapes_absorb[OF bs] by simp
  define m2 where "m2 = m1\<lparr>buffers := AList.update name w_new (buffers m1)\<rparr>"
  have m2: "register_buffer name w_new m1 = Inr m2"
    using register_buffer_existing[of name m1 w_new] name_key keys1 name_valid
    by (simp add: m2_def)
  have keys2: "map fst (buffers m2) = map fst (buffers m)"
    using name_key keys1 by (simp add: m2_def update_keys)
  have map2: "map_of (buffers m2) = (map_of (buffers m))(?sn \<mapsto> s_new, name \<mapsto> w_new)"
    by (simp add: m2_def m1_def update_conv')
  have "pairedP m2"
    unfolding pairedP_def
  proof (intro conjI allI impI)
    show "distinct (map fst (buffers m2))"
      using dist keys2 by simp
    show "\<forall>n \<in> set (map fst (buffers m2)). CHR ''.'' \<notin> set n \<and> n \<noteq> []"
      using valid keys2 by simp
  next
    fix n w'
    assume a: "map_of (buffers m2) n = Some w' \<and> \<not> suffix ''_surprise_tpast'' n"
    then have n_sn: "n \<noteq> ?sn"
      using suffix_surprise_name by metis
    show "\<exists>s. map_of (buffers m2) (get_corresponding_surprise_name n) = Some s
        \<and> shape s = shape w'"
    proof (cases "n = name")
      case True
      then have "w' = w_new"
        using a map2 by simp
      moreover have "map_of (buffers m2) ?sn = Some s_new"
        using map2 neq by simp
      ultimately show ?thesis
        using True shape_new by simp
    next
      case False
      then have old: "map_of (buffers m) n = Some w'"
        using a map2 n_sn by simp
      then obtain s where s: "map_of (buffers m) (get_corresponding_surprise_name n) = Some s"
        and ss: "shape s = shape w'"
        using pairs a by blast
      have "get_corresponding_surprise_name n \<noteq> ?sn"
        using False by simp
      moreover have "get_corresponding_surprise_name n \<noteq> name"
        using ns surprise_name_not_weight by blast
      ultimately have "map_of (buffers m2) (get_corresponding_surprise_name n) = Some s"
        using map2 s by simp
      then show ?thesis
        using ss by simp
    qed
  qed
  moreover have "lr m2 = lr m"
    by (simp add: m2_def m1_def)
  ultimately show ?thesis
    using m1 w_new m2 map2 by blast
qed

lemma update_loop_skip:
  "get_buffer m (get_corresponding_surprise_name n) = Inr s \<Longrightarrow>
   update_loop eta alpha ((None, n, w) # zs) m logged
     = update_loop eta alpha zs m (logged @ [skip_warning])"
  by (simp add: Let_def)

lemma update_loop_fail:
  "get_buffer m (get_corresponding_surprise_name n) = Inr s \<Longrightarrow>
   tadd (smul eta s) (smul (lr m) g) = Inl e \<Longrightarrow>
   update_loop eta alpha ((Some g, n, w) # zs) m logged = (Some e, m, logged)"
  by (simp add: Let_def)

lemma update_loop_step:
  "get_buffer m (get_corresponding_surprise_name n) = Inr s \<Longrightarrow>
   tadd (smul eta s) (smul (lr m) g) = Inr s_new \<Longrightarrow>
   register_buffer (get_corresponding_surprise_name n) s_new m = Inr m1 \<Longrightarrow>
   tadd (smul (1 - alpha) w) s_new = Inr w_new \<Longrightarrow>
   register_buffer n w_new m1 = Inr m2 \<Longrightarrow>
   update_loop eta alpha ((Some g, n, w) # zs) m logged = update_loop eta alpha zs m2 logged"
  by (simp add: Let_def)

lemma pairedP_surprise:
  assumes "pairedP m" and "map_of (buffers m) n = Some w" and "\<not> suffix ''_surprise_tpast'' n"
  shows "\<exists>s. map_of (buffers m) (get_corresponding_surprise_name n) = Some s \<and> shape s = shape w"
proof -
  have "\<forall>n w. map_of (buffers m) n = Some w \<and> \<not> suffix ''_surprise_tpast'' n \<longrightarrow>
      (\<exists>s. map_of (buffers m) (get_corresponding_surprise_name n) = Some s \<and> shape s = shape w)"
    using assms(1) unfolding pairedP_def by (elim conjE)
  then show ?thesis
    using assms(2,3) by blast
qed

lemma update_loop_paired:
  assumes "pairedP m"
    and "\<forall>z \<in> set zs. map_of (buffers m) (fst (snd z)) = Some (snd (snd z))
           \<and> \<not> sublist ''surprise'' (fst (snd z))"
    and "distinct (map (\<lambda>z. fst (snd z)) zs)"
    and "update_loop eta alpha zs m logged = (r, m', logged')"
  shows "pairedP m' \<and> dom (map_of (buffers m')) = dom (map_of (buffers m))
    \<and> ((\<forall>z \<in> set zs. \<forall>g. fst z = Some g \<longrightarrow>
            \<not> isl (broadcast_shapes (shape (snd (snd z))) (shape g))) \<longrightarrow> r = None)"
  using assms
proof (induction zs arbitrary: m logged)
  case Nil
  then show ?case by simp
next
  case (Cons z zs)
  obtain grad0 name0 w0 where z: "z = (grad0, name0, w0)"
    by (cases z) auto
  have w0: "map_of (buffers m) name0 = Some w0" and ns0: "\<not> sublist ''surprise'' name0"
    using Cons.prems(2) z by auto
  have rest: "\<forall>z \<in> set zs. map_of (buffers m) (fst (snd z)) = Some (snd (snd z))
      \<and> \<not> sublist ''surprise'' (fst (snd z))"
    using Cons.prems(2) by simp
  have dist: "distinct (map (\<lambda>z. fst (snd z)) zs)"
    and fresh0: "name0 \<notin> set (map (\<lambda>z. fst (snd z)) zs)"
    using Cons.prems(3) z by auto
  have nsuf0: "\<not> suffix ''_surprise_tpast'' name0"
    using ns0 suffix_imp_surprise by blast
  obtain s_old where s_old: "map_of (buffers m) (get_corresponding_surprise_name name0) = Some s_old"
    and shape_old: "shape s_old = shape w0"
    using pairedP_surprise[OF Cons.prems(1) w0 nsuf0] by blast
  have gb: "get_buffer m (get_corresponding_surprise_name name0) = Inr s_old"
    using s_old by (simp add: get_buffer_def)
  show ?case
  proof (cases grad0)
    case None
    then have "update_loop eta alpha zs m (logged @ [skip_warning]) = (r, m', logged')"
      using Cons.prems(4) z by (simp only: update_loop_skip[OF gb])
    from Cons.IH[OF Cons.prems(1) rest dist this] show ?thesis
      using z None by (simp only: list.set ball_simps) auto
  next
    case (Some g)
    show ?thesis
    proof (cases "tadd (smul eta s_old) (smul (lr m) g)")
      case (Inl e)
      have "update_loop eta alpha (z # zs) m logged = (Some e, m, logged)"
        using update_loop_fail[OF gb Inl] by (simp only: z Some)
      then have res: "r = Some e" "m' = m"
        using Cons.prems(4) by simp_all
      have "isl (broadcast_shapes (shape w0) (shape g))"
        using Inl tadd_isl[of "smul eta s_old" "smul (lr m) g"] shape_old by simp
      then have "\<not> (\<forall>y \<in> set (z # zs). \<forall>g. fst y = Some g \<longrightarrow>
          \<not> isl (broadcast_shapes (shape (snd (snd y))) (shape g)))"
        using z Some by auto
      then show ?thesis
        using res Cons.prems(1) by blast
    next
      case (Inr s_new)
      from update_step[OF Cons.prems(1) w0 ns0 s_old Inr, of alpha]
      obtain m1 w_new m2 where
        m1: "register_buffer (get_corresponding_surprise_name name0) s_new m = Inr m1"
        and w_new: "tadd (smul (1 - alpha) w0) s_new = Inr w_new"
        and m2: "register_buffer name0 w_new m1 = Inr m2"
        and P2: "pairedP m2"
        and map2: "map_of (buffers m2) = (map_of (buffers m))
            (get_corresponding_surprise_name name0 \<mapsto> s_new, name0 \<mapsto> w_new)"
        by blast
      have "update_loop eta alpha (z # zs) m logged = update_loop eta alpha zs m2 logged"
        using update_loop_step[OF gb Inr m1 w_new m2] by (simp only: z Some)
      then have run: "update_loop eta alpha zs m2 logged = (r, m', logged')"
        using Cons.prems(4) by simp
      have rest2: "\<forall>z \<in> set zs. map_of (buffers m2) (fst (snd z)) = Some (snd (snd z))
          \<and> \<not> sublist ''surprise'' (fst (snd z))"
      proof
        fix y assume y: "y \<in> set zs"
        from rest y have old: "map_of (buffers m) (fst (snd y)) = Some (snd (snd y))"
          and nsy: "\<not> sublist ''surprise'' (fst (snd y))"
          by blast+
        have "fst (snd y) \<in> set (map (\<lambda>z. fst (snd z)) zs)"
          using y by (rule imageI[of y "set zs" "\<lambda>z. fst (snd z)", unfolded set_map[symmetric]])
        then have ne1: "fst (snd y) \<noteq> name0"
          using fresh0 by metis
        have ne2: "fst (snd y) \<noteq> get_corresponding_surprise_name name0"
          by (rule surprise_name_not_weight[OF nsy, symmetric])
        have "map_of (buffers m2) (fst (snd y)) = map_of (buffers m) (fst (snd y))"
          unfolding map2 using ne1 ne2 by simp
        then show "map_of (buffers m2) (fst (snd y)) = Some (snd (snd y))
            \<and> \<not> sublist ''surprise'' (fst (snd y))"
          using old nsy by simp
      qed
      have "dom (map_of (buffers m2))
          = insert name0 (insert (get_corresponding_surprise_name name0) (dom (map_of (buffers m))))"
        unfolding map2 by simp
      moreover have "name0 \<in> dom (map_of (buffers m))"
        "get_corresponding_surprise_name name0 \<in> dom (map_of (buffers m))"
        using w0 s_old by (simp_all add: domI)
      ultimately have dom2: "dom (map_of (buffers m2)) = dom (map_of (buffers m))"
        by (simp add: insert_absorb)
      from Cons.IH[OF P2 rest2 dist run]
      have ih1: "pairedP m'" and ih2: "dom (map_of (buffers m')) = dom (map_of (buffers m2))"
        and ih3: "(\<forall>z \<in> set zs. \<forall>g. fst z = Some g \<longrightarrow>
            \<not> isl (broadcast_shapes (shape (snd (snd z))) (shape g))) \<longrightarrow> r = None"
        by blast+
      have "r = None" if "\<forall>y \<in> set (z # zs). \<forall>g. fst y = Some g \<longrightarrow>
            \<not> isl (broadcast_shapes (shape (snd (snd y))) (shape g))"
      proof -
        from that have "\<forall>y \<in> set zs. \<forall>g. fst y = Some g \<longrightarrow>
            \<not> isl (broadcast_shapes (shape (snd (snd y))) (shape g))"
          by simp
        then show ?thesis
          using ih3 by blast
      qed
      then show ?thesis
        using ih1 ih2 dom2 by (intro conjI impI) simp_all
    qed
  qed
qed

lemma named_weights_lookup:
  assumes "distinct (map fst (buffers m))" and "(n, w) \<in> set (get_named_weights m)"
  shows "map_of (buffers m) n = Some w" and "\<not> sublist ''surprise'' n"
  using assms by (auto simp: get_named_weights_def)

lemma named_weights_distinct:
  "distinct (map fst (buffers m)) \<Longrightarrow> distinct (map fst (get_named_weights m))"
  by (simp add: get_named_weights_def distinct_map_filter)

lemma zip_names_distinct:
  assumes "distinct (map fst ws)"
  shows "distinct (map (\<lambda>z. fst (snd z)) (zip gs ws))"
proof -
  have "map (\<lambda>z. fst (snd z)) (zip gs ws) = map fst (map snd (zip gs ws))"
    by simp
  also have "\<dots> = map fst (take (length gs) ws)"
    by (simp only: map_snd_zip_take min.commute) (simp add: min_def take_all)
  also have "\<dots> = take (length gs) (map fst ws)"
    by (simp add: take_map)
  finally show ?thesis
    using assms by (simp add: distinct_take)
qed

lemma update_paired:
  assumes "pairedP m" and "update m grads eta alpha = (r, m', logged)"
  shows "pairedP m'" and "dom (map_of (buffers m')) = dom (map_of (buffers m))"
    and "grads_fit m grads \<Longrightarrow> r = None"
proof -
  have dist: "distinct (map fst (buffers m))"
    using assms(1) by (simp add: pairedP_def)
  let ?zs = "zip grads (get_named_weights m)"
  have entries: "\<forall>z \<in> set ?zs. map_of (buffers m) (fst (snd z)) = Some (snd (snd z))
      \<and> \<not> sublist ''surprise'' (fst (snd z))"
  proof
    fix z assume "z \<in> set ?zs"
    then have "snd z \<in> set (get_named_weights m)"
      using set_zip_rightD[of "fst z" "snd z" grads "get_named_weights m"] by simp
    then show "map_of (buffers m) (fst (snd z)) = Some (snd (snd z))
        \<and> \<not> sublist ''surprise'' (fst (snd z))"
      using named_weights_lookup[OF dist, of "fst (snd z)" "snd (snd z)"] by simp
  qed
  have names: "distinct (map (\<lambda>z. fst (snd z)) ?zs)"
    using zip_names_distinct[OF named_weights_distinct[OF dist]] .
  show "pairedP m'" and "dom (map_of (buffers m')) = dom (map_of (buffers m))"
    and "grads_fit m grads \<Longrightarrow> r = None"
  proof -
    consider (bad) "length grads \<noteq> length (get_named_weights m)"
      | (ok) "length grads = length (get_named_weights m)"
      by blast
    then have "pairedP m' \<and> dom (map_of (buffers m')) = dom (map_of (buffers m))
        \<and> (grads_fit m grads \<longrightarrow> r = None)"
    proof cases
      case bad
      then show ?thesis
        using assms by (simp add: update_def update_memory_def grads_fit_def)
    next
      case ok
      then have run: "update_loop eta alpha ?zs m [] = (r, m', logged)"
        using assms(2) by (simp add: update_def update_memory_def)
      have "grads_fit m grads \<Longrightarrow> \<forall>z \<in> set ?zs. \<forall>g. fst z = Some g \<longrightarrow>
          \<not> isl (broadcast_shapes (shape (snd (snd z))) (shape g))"
        by (auto simp: grads_fit_def list_all_iff)
      then show ?thesis
        using update_loop_paired[OF assms(1) entries names run] by blast
    qed
    then show "pairedP m'" and "dom (map_of (buffers m')) = dom (map_of (buffers m))"
      and "grads_fit m grads \<Longrightarrow> r = None"
      by simp_all
  qed
qed

lemma shape_zeros_like [simp]: "shape (zeros_like t) = shape t"
  by (simp add: zeros_like_def full_def)

lemma pairedZ_pairedP: "pairedZ m \<Longrightarrow> pairedP m"
  unfolding pairedZ_def pairedP_def by (metis shape_zeros_like)

lemma register_buffer_valid:
  assumes "register_buffer n t m = Inr m'"
  shows "CHR ''.'' \<notin> set n" and "n \<noteq> []"
  using assms by (auto simp: register_buffer_def split: if_splits)

lemma register_buffer_keys:
  assumes "register_buffer n t m = Inr m'"
  shows "set (map fst (buffers m')) = insert n (set (map fst (buffers m)))"
    and "distinct (map fst (buffers m)) \<Longrightarrow> distinct (map fst (buffers m'))"
  using assms by (auto simp: register_buffer_Inr(1) dom_update distinct_update)

lemma construct_step:
  assumes Z: "pairedZ m" and nsuf: "\<not> suffix ''_surprise_tpast'' n"
    and m1: "register_buffer n w m = Inr m1"
    and m2: "register_buffer (get_corresponding_surprise_name n) (zeros_like w) m1 = Inr m2"
  shows "pairedZ m2"
    and "set (map fst (buffers m2))
       = insert n (insert (get_corresponding_surprise_name n) (set (map fst (buffers m))))"
proof -
  let ?sn = "get_corresponding_surprise_name n"
  have dist: "distinct (map fst (buffers m))"
    and valid: "\<forall>k \<in> set (map fst (buffers m)). CHR ''.'' \<notin> set k \<and> k \<noteq> []"
    and zeros: "\<forall>k v. map_of (buffers m) k = Some v \<and> \<not> suffix ''_surprise_tpast'' k \<longrightarrow>
        map_of (buffers m) (get_corresponding_surprise_name k) = Some (zeros_like v)"
    using Z unfolding pairedZ_def by blast+
  have keys: "set (map fst (buffers m2)) = insert n (insert ?sn (set (map fst (buffers m))))"
    using register_buffer_keys(1)[OF m1] register_buffer_keys(1)[OF m2] by auto
  have map2: "map_of (buffers m2) = (map_of (buffers m))(n \<mapsto> w, ?sn \<mapsto> zeros_like w)"
    using register_buffer_map_of[OF m1] register_buffer_map_of[OF m2] by simp
  have neq: "?sn \<noteq> n"
    using nsuf suffix_surprise_name[of n] by metis
  show "set (map fst (buffers m2)) = insert n (insert ?sn (set (map fst (buffers m))))"
    by (rule keys)
  show "pairedZ m2"
    unfolding pairedZ_def
  proof (intro conjI allI impI)
    show "distinct (map fst (buffers m2))"
      using register_buffer_keys(2)[OF m2] register_buffer_keys(2)[OF m1] dist by blast
    show "\<forall>k \<in> set (map fst (buffers m2)). CHR ''.'' \<notin> set k \<and> k \<noteq> []"
      unfolding keys
      using valid register_buffer_valid[OF m1] register_buffer_valid[OF m2] by simp
  next
    fix k v
    assume a: "map_of (buffers m2) k = Some v \<and> \<not> suffix ''_surprise_tpast'' k"
    then have k_sn: "k \<noteq> ?sn"
      using suffix_surprise_name[of n] by metis
    show "map_of (buffers m2) (get_corresponding_surprise_name k) = Some (zeros_like v)"
    proof (cases "k = n")
      case True
      then have "v = w"
        using a map2 neq by simp
      then show ?thesis
        using True map2 by simp
    next
      case False
      then have old: "map_of (buffers m) k = Some v"
        using a map2 k_sn by simp
      then have z: "map_of (buffers m) (get_corresponding_surprise_name k) = Some (zeros_like v)"
        using zeros a by blast
      have "get_corresponding_surprise_name k \<noteq> ?sn"
        using False by simp
      moreover have "get_corresponding_surprise_name k \<noteq> n"
        using nsuf suffix_surprise_name[of k] by metis
      ultimately show ?thesis
        using map2 z by simp
    qed
  qed
qed

lemma construct_loop_paired:
  assumes "pairedZ m" and "list_all (\<lambda>(n, w). \<not> suffix ''_surprise_tpast'' n) ws"
    and "construct_loop ws m = Inr m'"
  shows "pairedZ m' \<and> set (map fst (buffers m'))
      = set (map fst (buffers m)) \<union> set (map fst ws)
        \<union> get_corresponding_surprise_name ` set (map fst ws)"
  using assms
proof (induction ws arbitrary: m)
  case Nil
  then show ?case by simp
next
  case (Cons p ws)
  obtain n w where p: "p = (n, w)" by (cases p) auto
  from Cons.prems(3) p obtain m1 m2 where
    m1: "register_buffer n w m = Inr m1"
    and m2: "register_buffer (get_corresponding_surprise_name n) (zeros_like w) m1 = Inr m2"
    and rest: "construct_loop ws m2 = Inr m'"
    by (auto split: sum.splits)
  have nsuf: "\<not> suffix ''_surprise_tpast'' n" and tl: "list_all (\<lambda>(n, w). \<not> suffix ''_surprise_tpast'' n) ws"
    using Cons.prems(2) p by simp_all
  from construct_step[OF Cons.prems(1) nsuf m1 m2]
  have Z2: "pairedZ m2" and keys2: "set (map fst (buffers m2))
       = insert n (insert (get_corresponding_surprise_name n) (set (map fst (buffers m))))"
    by blast+
  from Cons.IH[OF Z2 tl rest] show ?case
    unfolding keys2 using p by auto
qed

lemma MemoryModule_init_paired:
  assumes "MemoryModule_init as weights di do l = Inr m0"
    and "list_all (\<lambda>(n, w). \<not> suffix ''_surprise_tpast'' n) weights"
  shows "pairedZ m0"
    and "set (map fst (buffers m0))
       = set (map fst weights) \<union> get_corresponding_surprise_name ` set (map fst weights)"
proof -
  have "pairedZ \<lparr>lr = l, dim_in = di, dim_out = do, attrs = as, buffers = []\<rparr>"
    by (simp add: pairedZ_def)
  from construct_loop_paired[OF this assms(2) assms(1)[unfolded MemoryModule_init_def]]
  show "pairedZ m0"
    and "set (map fst (buffers m0))
       = set (map fst weights) \<union> get_corresponding_surprise_name ` set (map fst weights)"
    by simp_all
qed

lemma update_calls_paired:
  assumes "pairedP m"
  shows "pairedP (update_calls m calls)
     \<and> dom (map_of (buffers (update_calls m calls))) = dom (map_of (buffers m))"
  using assms
proof (induction calls arbitrary: m)
  case Nil
  then show ?case by simp
next
  case (Cons c calls)
  obtain grads eta alpha where c: "c = (grads, eta, alpha)" by (cases c) auto
  obtain r m' logged where u: "update m grads eta alpha = (r, m', logged)"
    by (cases "update m grads eta alpha") auto
  from update_paired(1,2)[OF Cons.prems u]
  have "pairedP m'" and "dom (map_of (buffers m')) = dom (map_of (buffers m))"
    by blast+
  then show ?case
    using Cons.IH[of m'] c u by simp
qed

lemma update_success_loop:
  assumes "update m grads eta alpha = (None, m', logged)"
  shows "length grads = length (get_named_weights m)"
    and "update_loop eta alpha (zip grads (get_named_weights m)) m [] = (None, m', logged)"
  using assms by (auto simp: update_def update_memory_def split: if_splits)

lemma zip_entries_named:
  assumes "distinct (map fst (buffers m))"
  shows "\<forall>z \<in> set (zip grads (get_named_weights m)). \<not> sublist ''surprise'' (fst (snd z))"
proof
  fix z assume "z \<in> set (zip grads (get_named_weights m))"
  then have "snd z \<in> set (get_named_weights m)"
    using set_zip_rightD[of "fst z" "snd z" grads "get_named_weights m"] by simp
  then show "\<not> sublist ''surprise'' (fst (snd z))"
    using named_weights_lookup(2)[OF assms, of "fst (snd z)" "snd (snd z)"] by simp
qed

lemma zip_nth_mem:
  assumes "i < length grads" and "length grads = length ws"
  shows "(grads ! i, ws ! i) \<in> set (zip grads ws)"
  using assms by (metis in_set_conv_nth length_zip min.idem nth_zip)

text \<open>
  Claim C1. After a call of \<open>update\<close> that returns, every weight whose gradient is present
  holds its new values: the surprise buffer is \<open>eta * surprise_old + lr * grad\<close> and the
  weight buffer is \<open>(1 - alpha) * weight_old + surprise_new\<close>, with \<open>surprise_old\<close> and
  \<open>weight_old\<close> the buffers before the call and \<open>lr\<close> the learning rate of the module.
\<close>

theorem update_applies_recurrence:
  assumes "distinct (map fst (buffers m))"
    and "update m grads eta alpha = (None, m', logged)"
    and "i < length grads" and "grads ! i = Some grad"
    and "get_named_weights m ! i = (name, weight_old)"
    and "get_buffer m (get_corresponding_surprise_name name) = Inr surprise_old"
  shows "get_buffer m name = Inr weight_old
    \<and> (\<exists>surprise_new weight_new.
          tadd (smul eta surprise_old) (smul (lr m) grad) = Inr surprise_new
        \<and> tadd (smul (1 - alpha) weight_old) surprise_new = Inr weight_new
        \<and> get_buffer m' (get_corresponding_surprise_name name) = Inr surprise_new
        \<and> get_buffer m' name = Inr weight_new)
    \<and> lr m' = lr m"
proof -
  let ?ws = "get_named_weights m"
  have len: "length grads = length ?ws"
    and run: "update_loop eta alpha (zip grads ?ws) m [] = (None, m', logged)"
    using update_success_loop[OF assms(2)] by blast+
  have mem: "(Some grad, name, weight_old) \<in> set (zip grads ?ws)"
    using zip_nth_mem[OF assms(3) len] assms(4,5) by simp
  then have "(name, weight_old) \<in> set ?ws"
    by (rule set_zip_rightD)
  then have "get_buffer m name = Inr weight_old"
    using named_weights_lookup(1)[OF assms(1)] by (simp add: get_buffer_def)
  moreover have "\<exists>surprise_new weight_new.
          tadd (smul eta surprise_old) (smul (lr m) grad) = Inr surprise_new
        \<and> tadd (smul (1 - alpha) weight_old) surprise_new = Inr weight_new
        \<and> get_buffer m' (get_corresponding_surprise_name name) = Inr surprise_new
        \<and> get_buffer m' name = Inr weight_new"
    using update_loop_entry[OF run
        zip_names_distinct[OF named_weights_distinct[OF assms(1)]]
        zip_entries_named[OF assms(1)] mem assms(6)] .
  moreover have "lr m' = lr m"
    using update_loop_frame[OF run] by blast
  ultimately show ?thesis
    by blast
qed

theorem update_applies_recurrence_witness:
  "update demo_memory [Some \<lparr>shape = [1, 2], data = [5, 6]\<rparr>] 2 3
     = (None, demo_memory\<lparr>buffers := [(''model'', \<lparr>shape = [1, 2], data = [- 1, - 2]\<rparr>),
          (''model_surprise_tpast'', \<lparr>shape = [1, 2], data = [5, 6]\<rparr>)]\<rparr>, [])
   \<and> get_buffer (fst (snd (update demo_memory [Some \<lparr>shape = [1, 2], data = [5, 6]\<rparr>] 2 3)))
        ''model_surprise_tpast''
       = tadd (smul 2 \<lparr>shape = [1, 2], data = [0, 0]\<rparr>)
              (smul (lr demo_memory) \<lparr>shape = [1, 2], data = [5, 6]\<rparr>)
   \<and> get_buffer (fst (snd (update demo_memory [Some \<lparr>shape = [1, 2], data = [5, 6]\<rparr>] 2 3)))
        ''model''
       = Inr \<lparr>shape = [1, 2], data = [- 1, - 2]\<rparr>"
proof -
  let ?g = "\<lparr>shape = [1, 2], data = [5, 6 :: int]\<rparr>"
  let ?m' = "demo_memory\<lparr>buffers := [(''model'', \<lparr>shape = [1, 2], data = [- 1, - 2]\<rparr>),
          (''model_surprise_tpast'', \<lparr>shape = [1, 2], data = [5, 6]\<rparr>)]\<rparr>"
  have run: "update demo_memory [Some ?g] 2 3 = (None, ?m', [])"
    by code_simp
  have dist: "distinct (map fst (buffers demo_memory))"
    by code_simp
  have entry: "get_named_weights demo_memory ! 0 = (''model'', \<lparr>shape = [1, 2], data = [3, 4]\<rparr>)"
    by code_simp
  have old: "get_buffer demo_memory (get_corresponding_surprise_name ''model'')
      = Inr \<lparr>shape = [1, 2], data = [0, 0]\<rparr>"
    by code_simp
  from update_applies_recurrence[OF dist run _ _ entry old, of ?g]
  obtain s_new w_new where
    s: "tadd (smul 2 \<lparr>shape = [1, 2], data = [0, 0]\<rparr>) (smul (lr demo_memory) ?g) = Inr s_new"
    and w: "tadd (smul (1 - 3) \<lparr>shape = [1, 2], data = [3, 4]\<rparr>) s_new = Inr w_new"
    and s': "get_buffer ?m' (get_corresponding_surprise_name ''model'') = Inr s_new"
    and w': "get_buffer ?m' ''model'' = Inr w_new"
    by auto
  have "get_corresponding_surprise_name ''model'' = ''model_surprise_tpast''"
    by (simp add: get_corresponding_surprise_name_def)
  moreover have "get_buffer ?m' ''model'' = Inr \<lparr>shape = [1, 2], data = [- 1, - 2]\<rparr>"
    by (simp add: get_buffer_def)
  ultimately show ?thesis
    using run s s' w' by simp
qed

lemma written_entries:
  assumes "n \<in> written zs"
  shows "\<exists>g k w. (Some g, k, w) \<in> set zs \<and> (n = k \<or> n = get_corresponding_surprise_name k)"
  using assms
proof (induction zs)
  case Nil
  then show ?case by simp
next
  case (Cons z zs)
  obtain g0 k0 w0 where z: "z = (g0, k0, w0)" by (cases z) auto
  show ?case
  proof (cases "n \<in> written zs")
    case True
    then show ?thesis
      using Cons.IH by (meson list.set_intros(2))
  next
    case False
    then have "g0 \<noteq> None" and "n = k0 \<or> n = get_corresponding_surprise_name k0"
      using Cons.prems z by (auto split: if_splits)
    then obtain g where "g0 = Some g" by auto
    then have "(Some g, k0, w0) \<in> set (z # zs)"
      using z by simp
    then show ?thesis
      using \<open>n = k0 \<or> n = get_corresponding_surprise_name k0\<close> by blast
  qed
qed

lemma skipped_not_written:
  assumes dist: "distinct (map (\<lambda>z. fst (snd z)) zs)"
    and ns: "\<forall>z \<in> set zs. \<not> sublist ''surprise'' (fst (snd z))"
    and mem: "(None, name, w) \<in> set zs"
  shows "name \<notin> written zs" and "get_corresponding_surprise_name name \<notin> written zs"
proof -
  have inj: "inj_on (\<lambda>z. fst (snd z)) (set zs)"
    using dist by (simp add: distinct_map)
  have ns_name: "\<not> sublist ''surprise'' name"
    using ns mem by force
  have no_some: False if "(Some g, name, w') \<in> set zs" for g w'
  proof -
    have "(Some g, name, w') = (None, name, w)"
      using inj_onD[OF inj _ that mem] by simp
    then show False by simp
  qed
  show "name \<notin> written zs"
  proof
    assume "name \<in> written zs"
    then obtain g k w' where e: "(Some g, k, w') \<in> set zs"
      and c: "name = k \<or> name = get_corresponding_surprise_name k"
      using written_entries by blast
    from c show False
    proof
      assume "name = k"
      then show False using e no_some by blast
    next
      assume "name = get_corresponding_surprise_name k"
      then show False
        using surprise_name_not_weight[OF ns_name, of k] by simp
    qed
  qed
  show "get_corresponding_surprise_name name \<notin> written zs"
  proof
    assume "get_corresponding_surprise_name name \<in> written zs"
    then obtain g k w' where e: "(Some g, k, w') \<in> set zs"
      and c: "get_corresponding_surprise_name name = k
          \<or> get_corresponding_surprise_name name = get_corresponding_surprise_name k"
      using written_entries by blast
    from c show False
    proof
      assume k: "get_corresponding_surprise_name name = k"
      have "\<not> sublist ''surprise'' k"
        using ns e by force
      then show False
        using surprise_name_not_weight[of k name] k by simp
    next
      assume "get_corresponding_surprise_name name = get_corresponding_surprise_name k"
      then have "name = k" by simp
      then show False using e no_some by blast
    qed
  qed
qed

text \<open>
  Claim C4. In a call of \<open>update\<close> on a module whose buffers are paired, with as many
  entries as weights and every present gradient broadcastable against its weight, an
  entry without gradient raises nothing: the call returns, it logs the warning, the
  weight and the surprise buffer of that entry are what they were, and every entry with
  a gradient holds the values of the recurrence.
\<close>

theorem update_skips_missing_gradient:
  assumes "paired m" and "grads_fit m grads"
    and "i < length grads" and "grads ! i = None"
    and "get_named_weights m ! i = (name, weight_i)"
  shows "\<exists>m' logged.
      update m grads eta alpha = (None, m', logged)
    \<and> skip_warning \<in> set logged
    \<and> get_buffer m' name = Inr weight_i
    \<and> get_buffer m name = Inr weight_i
    \<and> get_buffer m' (get_corresponding_surprise_name name)
        = get_buffer m (get_corresponding_surprise_name name)
    \<and> (\<forall>j g n w. j < length grads \<and> grads ! j = Some g \<and> get_named_weights m ! j = (n, w) \<longrightarrow>
         (\<exists>s s' w'. get_buffer m (get_corresponding_surprise_name n) = Inr s
            \<and> tadd (smul eta s) (smul (lr m) g) = Inr s'
            \<and> tadd (smul (1 - alpha) w) s' = Inr w'
            \<and> get_buffer m' (get_corresponding_surprise_name n) = Inr s'
            \<and> get_buffer m' n = Inr w'))"
proof -
  let ?ws = "get_named_weights m"
  let ?zs = "zip grads ?ws"
  have P: "pairedP m"
    using assms(1) by (simp add: paired_iff)
  then have dist: "distinct (map fst (buffers m))"
    by (simp add: pairedP_def)
  obtain r m' logged where u: "update m grads eta alpha = (r, m', logged)"
    by (cases "update m grads eta alpha") auto
  have "r = None"
    using update_paired(3)[OF P u assms(2)] .
  then have u: "update m grads eta alpha = (None, m', logged)"
    using u by simp
  have len: "length grads = length ?ws"
    and run: "update_loop eta alpha ?zs m [] = (None, m', logged)"
    using update_success_loop[OF u] by blast+
  have names: "distinct (map (\<lambda>z. fst (snd z)) ?zs)"
    using zip_names_distinct[OF named_weights_distinct[OF dist]] .
  have nosur: "\<forall>z \<in> set ?zs. \<not> sublist ''surprise'' (fst (snd z))"
    using zip_entries_named[OF dist] .
  have mem: "(None, name, weight_i) \<in> set ?zs"
    using zip_nth_mem[OF assms(3) len] assms(4,5) by simp
  have "logged = replicate (length (filter (\<lambda>z. fst z = None) ?zs)) skip_warning"
    using update_loop_logged[OF run] by simp
  moreover have "filter (\<lambda>z. fst z = None) ?zs \<noteq> []"
    using mem by (force simp: filter_empty_conv)
  ultimately have warned: "skip_warning \<in> set logged"
    by (cases "length (filter (\<lambda>z. fst z = None) ?zs)") auto
  have frame: "\<forall>n. n \<notin> written ?zs \<longrightarrow> map_of (buffers m') n = map_of (buffers m) n"
    using update_loop_frame[OF run] by blast
  have same_w: "get_buffer m' name = get_buffer m name"
    and same_s: "get_buffer m' (get_corresponding_surprise_name name)
        = get_buffer m (get_corresponding_surprise_name name)"
    using frame skipped_not_written[OF names nosur mem] by (simp_all add: get_buffer_def)
  have "(name, weight_i) \<in> set ?ws"
    using mem by (rule set_zip_rightD)
  then have old_w: "get_buffer m name = Inr weight_i"
    using named_weights_lookup(1)[OF dist] by (simp add: get_buffer_def)
  have others: "\<exists>s s' w'. get_buffer m (get_corresponding_surprise_name n) = Inr s
            \<and> tadd (smul eta s) (smul (lr m) g) = Inr s'
            \<and> tadd (smul (1 - alpha) w) s' = Inr w'
            \<and> get_buffer m' (get_corresponding_surprise_name n) = Inr s'
            \<and> get_buffer m' n = Inr w'"
    if "j < length grads \<and> grads ! j = Some g \<and> get_named_weights m ! j = (n, w)" for j g n w
  proof -
    have e: "(Some g, n, w) \<in> set ?zs"
      using zip_nth_mem[of j grads ?ws] len that by simp
    then have nw: "(n, w) \<in> set ?ws"
      by (rule set_zip_rightD)
    have "\<not> suffix ''_surprise_tpast'' n"
      using named_weights_lookup(2)[OF dist nw] suffix_imp_surprise by blast
    then obtain s where "map_of (buffers m) (get_corresponding_surprise_name n) = Some s"
      using pairedP_surprise[OF P named_weights_lookup(1)[OF dist nw]] by blast
    then have s: "get_buffer m (get_corresponding_surprise_name n) = Inr s"
      by (simp add: get_buffer_def)
    from update_loop_entry[OF run names nosur e s] show ?thesis
      using s by blast
  qed
  have new_w: "get_buffer m' name = Inr weight_i"
    using same_w old_w by simp
  have "update m grads eta alpha = (None, m', logged)
    \<and> skip_warning \<in> set logged
    \<and> get_buffer m' name = Inr weight_i
    \<and> get_buffer m name = Inr weight_i
    \<and> get_buffer m' (get_corresponding_surprise_name name)
        = get_buffer m (get_corresponding_surprise_name name)
    \<and> (\<forall>j g n w. j < length grads \<and> grads ! j = Some g \<and> get_named_weights m ! j = (n, w) \<longrightarrow>
         (\<exists>s s' w'. get_buffer m (get_corresponding_surprise_name n) = Inr s
            \<and> tadd (smul eta s) (smul (lr m) g) = Inr s'
            \<and> tadd (smul (1 - alpha) w) s' = Inr w'
            \<and> get_buffer m' (get_corresponding_surprise_name n) = Inr s'
            \<and> get_buffer m' n = Inr w'))"
  proof (intro conjI allI impI)
    show "update m grads eta alpha = (None, m', logged)" by (rule u)
    show "skip_warning \<in> set logged" by (rule warned)
    show "get_buffer m' name = Inr weight_i" by (rule new_w)
    show "get_buffer m name = Inr weight_i" by (rule old_w)
    show "get_buffer m' (get_corresponding_surprise_name name)
        = get_buffer m (get_corresponding_surprise_name name)" by (rule same_s)
  next
    fix j g n w
    assume "j < length grads \<and> grads ! j = Some g \<and> get_named_weights m ! j = (n, w)"
    then show "\<exists>s s' w'. get_buffer m (get_corresponding_surprise_name n) = Inr s
            \<and> tadd (smul eta s) (smul (lr m) g) = Inr s'
            \<and> tadd (smul (1 - alpha) w) s' = Inr w'
            \<and> get_buffer m' (get_corresponding_surprise_name n) = Inr s'
            \<and> get_buffer m' n = Inr w'"
      by (rule others)
  qed
  then show ?thesis
    by blast
qed

theorem update_skips_missing_gradient_witness:
  "paired demo_memory2
   \<and> grads_fit demo_memory2 [None, Some \<lparr>shape = [1], data = [10]\<rparr>]
   \<and> update demo_memory2 [None, Some \<lparr>shape = [1], data = [10]\<rparr>] 3 5
       = (None,
          demo_memory2\<lparr>buffers := [(''a'', \<lparr>shape = [2], data = [1, 2]\<rparr>),
             (''a_surprise_tpast'', \<lparr>shape = [2], data = [0, 0]\<rparr>),
             (''b'', \<lparr>shape = [1], data = [12]\<rparr>),
             (''b_surprise_tpast'', \<lparr>shape = [1], data = [32]\<rparr>)]\<rparr>,
          [skip_warning])
   \<and> skip_warning \<in> set (snd (snd (update demo_memory2 [None, Some \<lparr>shape = [1], data = [10]\<rparr>] 3 5)))
   \<and> get_buffer (fst (snd (update demo_memory2 [None, Some \<lparr>shape = [1], data = [10]\<rparr>] 3 5))) ''a''
       = Inr \<lparr>shape = [2], data = [1, 2]\<rparr>
   \<and> get_buffer (fst (snd (update demo_memory2 [None, Some \<lparr>shape = [1], data = [10]\<rparr>] 3 5)))
         (get_corresponding_surprise_name ''a'')
       = get_buffer demo_memory2 (get_corresponding_surprise_name ''a'')"
proof -
  let ?grads = "[None, Some \<lparr>shape = [1], data = [10 :: int]\<rparr>]"
  let ?M = "demo_memory2\<lparr>buffers := [(''a'', \<lparr>shape = [2], data = [1, 2]\<rparr>),
             (''a_surprise_tpast'', \<lparr>shape = [2], data = [0, 0]\<rparr>),
             (''b'', \<lparr>shape = [1], data = [12]\<rparr>),
             (''b_surprise_tpast'', \<lparr>shape = [1], data = [32]\<rparr>)]\<rparr>"
  have p: "paired demo_memory2"
    by code_simp
  have f: "grads_fit demo_memory2 ?grads"
    by code_simp
  have e: "get_named_weights demo_memory2 ! 0 = (''a'', \<lparr>shape = [2], data = [1, 2]\<rparr>)"
    by code_simp
  have run: "update demo_memory2 ?grads 3 5 = (None, ?M, [skip_warning])"
    by code_simp
  from update_skips_missing_gradient[OF p f _ _ e, of 3 5]
  obtain m' logged where "update demo_memory2 ?grads 3 5 = (None, m', logged)"
    and "skip_warning \<in> set logged"
    and "get_buffer m' ''a'' = Inr \<lparr>shape = [2], data = [1, 2]\<rparr>"
    and "get_buffer m' (get_corresponding_surprise_name ''a'')
        = get_buffer demo_memory2 (get_corresponding_surprise_name ''a'')"
    by auto
  then show ?thesis
    using p f run by simp
qed

lemma weight_entries_lookup:
  assumes "distinct (map fst (buffers m))"
  shows "(n, w) \<in> set (weight_entries m)
     \<longleftrightarrow> map_of (buffers m) n = Some w \<and> \<not> suffix ''_surprise_tpast'' n"
  using assms by (auto simp: weight_entries_def)

text \<open>
  Claim C6. In a module built by \<open>MemoryModule.__init__\<close> from weights whose names do not
  end in the surprise suffix, and after any sequence of calls of \<open>update\<close>, raising or
  not: every buffer without the suffix has exactly one buffer of its name followed by
  the suffix, of the same shape; every weight of \<open>construct_layers\<close> is such a buffer;
  at construction the paired buffer is the zero tensor of the weight's shape;
  \<open>get_named_weights\<close> returns no buffer with the suffix, and all the others when no
  weight name contains \<open>surprise\<close>.
\<close>

theorem surprise_pairing_invariant:
  assumes "MemoryModule_init as weights di do l = Inr m0"
    and "list_all (\<lambda>(name, w). \<not> suffix ''_surprise_tpast'' name) weights"
  shows "paired (update_calls m0 calls)
    \<and> set (map fst weights) \<subseteq> set (map fst (weight_entries (update_calls m0 calls)))
    \<and> list_all (\<lambda>(name, w).
          get_buffer m0 (get_corresponding_surprise_name name) = Inr (zeros_like w))
        (weight_entries m0)
    \<and> list_all (\<lambda>(name, w). \<not> suffix ''_surprise_tpast'' name)
        (get_named_weights (update_calls m0 calls))
    \<and> (list_all (\<lambda>(name, w). \<not> sublist ''surprise'' name) weights \<longrightarrow>
         get_named_weights (update_calls m0 calls) = weight_entries (update_calls m0 calls))"
proof -
  let ?m = "update_calls m0 calls"
  have Z: "pairedZ m0"
    and keys0: "set (map fst (buffers m0))
       = set (map fst weights) \<union> get_corresponding_surprise_name ` set (map fst weights)"
    using MemoryModule_init_paired[OF assms] by blast+
  have P: "pairedP ?m" and doms: "dom (map_of (buffers ?m)) = dom (map_of (buffers m0))"
    using update_calls_paired[OF pairedZ_pairedP[OF Z], of calls] by blast+
  have dist: "distinct (map fst (buffers ?m))" and dist0: "distinct (map fst (buffers m0))"
    using P Z by (simp_all add: pairedP_def pairedZ_def)
  have keys: "set (map fst (buffers ?m))
       = set (map fst weights) \<union> get_corresponding_surprise_name ` set (map fst weights)"
    using doms keys0 by (simp add: dom_map_of_conv_image_fst)
  have nsuf: "\<not> suffix ''_surprise_tpast'' n" if "n \<in> set (map fst weights)" for n
    using assms(2) that by (auto simp: list_all_iff)
  have c1: "paired ?m"
    using P by (simp add: paired_iff)
  have c2: "set (map fst weights) \<subseteq> set (map fst (weight_entries ?m))"
  proof
    fix n assume n: "n \<in> set (map fst weights)"
    then have "n \<in> set (map fst (buffers ?m))"
      using keys by blast
    then obtain w where "(n, w) \<in> set (buffers ?m)"
      by auto
    then have "(n, w) \<in> set (weight_entries ?m)"
      using nsuf[OF n] by (simp add: weight_entries_def)
    then show "n \<in> set (map fst (weight_entries ?m))"
      by force
  qed
  have c3: "list_all (\<lambda>(name, w).
          get_buffer m0 (get_corresponding_surprise_name name) = Inr (zeros_like w))
        (weight_entries m0)"
    unfolding list_all_iff
  proof (intro ballI)
    fix p assume p: "p \<in> set (weight_entries m0)"
    obtain n w where nw: "p = (n, w)" by (cases p) auto
    then have "map_of (buffers m0) n = Some w \<and> \<not> suffix ''_surprise_tpast'' n"
      using p weight_entries_lookup[OF dist0] by blast
    then have "map_of (buffers m0) (get_corresponding_surprise_name n) = Some (zeros_like w)"
      using Z unfolding pairedZ_def by blast
    then show "case p of (name, w) \<Rightarrow>
        get_buffer m0 (get_corresponding_surprise_name name) = Inr (zeros_like w)"
      using nw by (simp add: get_buffer_def)
  qed
  have c4: "list_all (\<lambda>(name, w). \<not> suffix ''_surprise_tpast'' name) (get_named_weights ?m)"
    unfolding list_all_iff get_named_weights_def
    using suffix_imp_surprise by auto
  have c5: "get_named_weights ?m = weight_entries ?m"
    if all: "list_all (\<lambda>(name, w). \<not> sublist ''surprise'' name) weights"
    unfolding get_named_weights_def weight_entries_def
  proof (rule filter_cong[OF refl])
    fix p assume p: "p \<in> set (buffers ?m)"
    obtain k v where kv: "p = (k, v)" by (cases p) auto
    then have "k \<in> set (map fst (buffers ?m))"
      using p by force
    then consider (name) "k \<in> set (map fst weights)"
      | (sur) n where "k = get_corresponding_surprise_name n"
      using keys by blast
    then have "sublist ''surprise'' k \<longleftrightarrow> suffix ''_surprise_tpast'' k"
    proof cases
      case name
      then have "\<not> sublist ''surprise'' k"
        using all by (auto simp: list_all_iff)
      then show ?thesis
        using suffix_imp_surprise by blast
    next
      case sur
      then show ?thesis
        using surprise_in_surprise_name[of n] suffix_surprise_name[of n] by simp
    qed
    then show "(case p of (name, w) \<Rightarrow> \<not> sublist ''surprise'' name)
        = (case p of (name, t) \<Rightarrow> \<not> suffix ''_surprise_tpast'' name)"
      using kv by simp
  qed
  show ?thesis
    using c1 c2 c3 c4 c5 by blast
qed

theorem surprise_pairing_invariant_witness:
  "MemoryModule_init [''lr'', ''dim_in'', ''dim_out'']
       [(''model'', \<lparr>shape = [1, 2], data = [3, 4]\<rparr>)] 2 1 1 = Inr demo_memory
   \<and> update_calls demo_memory
        [([Some \<lparr>shape = [1, 2], data = [5, 6]\<rparr>], 2, 3), ([None], 5, 7), ([], 1, 1)]
       = demo_memory\<lparr>buffers := [(''model'', \<lparr>shape = [1, 2], data = [- 1, - 2]\<rparr>),
           (''model_surprise_tpast'', \<lparr>shape = [1, 2], data = [5, 6]\<rparr>)]\<rparr>
   \<and> paired (update_calls demo_memory
        [([Some \<lparr>shape = [1, 2], data = [5, 6]\<rparr>], 2, 3), ([None], 5, 7), ([], 1, 1)])
   \<and> get_buffer demo_memory ''model_surprise_tpast'' = Inr \<lparr>shape = [1, 2], data = [0, 0]\<rparr>
   \<and> get_named_weights (update_calls demo_memory
        [([Some \<lparr>shape = [1, 2], data = [5, 6]\<rparr>], 2, 3), ([None], 5, 7), ([], 1, 1)])
       = [(''model'', \<lparr>shape = [1, 2], data = [- 1, - 2]\<rparr>)]"
proof -
  let ?calls = "[([Some \<lparr>shape = [1, 2], data = [5, 6 :: int]\<rparr>], 2, 3), ([None], 5, 7), ([], 1, 1)]"
  have init: "MemoryModule_init [''lr'', ''dim_in'', ''dim_out'']
       [(''model'', \<lparr>shape = [1, 2], data = [3, 4]\<rparr>)] 2 1 1 = Inr demo_memory"
    by code_simp
  have names: "list_all (\<lambda>(name, w). \<not> suffix ''_surprise_tpast'' name)
      [(''model'', \<lparr>shape = [1, 2], data = [3, 4 :: int]\<rparr>)]"
    by code_simp
  have final: "update_calls demo_memory ?calls
       = demo_memory\<lparr>buffers := [(''model'', \<lparr>shape = [1, 2], data = [- 1, - 2]\<rparr>),
           (''model_surprise_tpast'', \<lparr>shape = [1, 2], data = [5, 6]\<rparr>)]\<rparr>"
    by code_simp
  have zero: "get_buffer demo_memory ''model_surprise_tpast'' = Inr \<lparr>shape = [1, 2], data = [0, 0]\<rparr>"
    by code_simp
  have enum: "get_named_weights (update_calls demo_memory ?calls)
       = [(''model'', \<lparr>shape = [1, 2], data = [- 1, - 2]\<rparr>)]"
    by code_simp
  from surprise_pairing_invariant[OF init names, of ?calls]
  have "paired (update_calls demo_memory ?calls)"
    by blast
  then show ?thesis
    using init final zero enum by simp
qed

section \<open>Chunked conditioning\<close>



























section \<open>Construction\<close>

lemma construct_layers_cases:
  "construct_layers rng di do =
     (if di < 0 \<or> do < 0 then Inl RuntimeError
      else if di = 0 \<and> do = 0 then Inl ZeroDivisionError
      else Inr [(''model'', \<lparr>shape = [nat do, nat di], data = rng 0 [nat do, nat di]\<rparr>)])"
  by (auto simp: construct_layers_def torch_empty_def xavier_normal_def Let_def)

lemma MemoryModule_init_model:
  assumes "''model'' \<notin> set as" and "''model_surprise_tpast'' \<notin> set as"
  shows "MemoryModule_init as [(''model'', w)] di do l =
     Inr \<lparr>lr = l, dim_in = di, dim_out = do, attrs = as,
          buffers = [(''model'', w), (''model_surprise_tpast'', zeros_like w)]\<rparr>"
  using assms
  by (simp add: MemoryModule_init_def register_buffer_def get_corresponding_surprise_name_def)

lemma Linear_init_cases:
  "Linear_init rng k d d =
     (if d < 0 then Inl RuntimeError
      else Inr \<lparr>weight = \<lparr>shape = [nat d, nat d], data = rng k [nat d, nat d]\<rparr>,
                bias = \<lparr>shape = [nat d], data = rng (k + 1) [nat d]\<rparr>\<rparr>)"
  by (simp add: Linear_init_def initialised_def torch_empty_def)

text \<open>
  Claim C9. The constructors validate nothing; what fails is the allocation and the
  initialisation of the memory's weight. \<open>NeuralMemory(dim_in, dim_out, update_chunk_size,
  lr)\<close> raises \<open>RuntimeError\<close> when \<open>dim_in\<close> or \<open>dim_out\<close> is negative
  (\<open>torch.empty\<close>) and \<open>ZeroDivisionError\<close> when both are 0 (\<open>xavier_normal_\<close> divides
  by \<open>fan_in + fan_out\<close>). In every other case, so when exactly one of them is 0 and
  for every chunk size, positive or not, the construction succeeds and stores the chunk
  size as given.
\<close>

theorem construction_checks:
  "(di < 0 \<or> do < 0 \<longrightarrow> NeuralMemory_init rng as di do chunk l = Inl RuntimeError)
   \<and> (di = 0 \<and> do = 0 \<longrightarrow> NeuralMemory_init rng as di do chunk l = Inl ZeroDivisionError)
   \<and> (0 \<le> di \<and> 0 \<le> do \<and> 0 < di + do
        \<and> ''model'' \<notin> set as \<and> ''model_surprise_tpast'' \<notin> set as \<longrightarrow>
      (\<exists>u. NeuralMemory_init rng as di do chunk l = Inr u \<and> update_chunk_size u = chunk))"
proof (intro conjI impI)
  assume "di < 0 \<or> do < 0"
  then show "NeuralMemory_init rng as di do chunk l = Inl RuntimeError"
    by (simp add: NeuralMemory_init_def LinearMemory_init_def construct_layers_cases)
next
  assume "di = 0 \<and> do = 0"
  then show "NeuralMemory_init rng as di do chunk l = Inl ZeroDivisionError"
    by (simp add: NeuralMemory_init_def LinearMemory_init_def construct_layers_cases)
next
  assume a: "0 \<le> di \<and> 0 \<le> do \<and> 0 < di + do
        \<and> ''model'' \<notin> set as \<and> ''model_surprise_tpast'' \<notin> set as"
  then have "\<not> (di < 0 \<or> do < 0)" and "\<not> (di = 0 \<and> do = 0)" and "\<not> di < 0"
    by auto
  then show "\<exists>u. NeuralMemory_init rng as di do chunk l = Inr u \<and> update_chunk_size u = chunk"
    using a by (simp add: NeuralMemory_init_def LinearMemory_init_def construct_layers_cases
        MemoryModule_init_model Linear_init_cases)
qed

theorem construction_checks_witness:
  "NeuralMemory_init ones_init [] (- 1) 4 2 (1 :: real) = Inl RuntimeError
   \<and> NeuralMemory_init ones_init [] 4 (- 1) 2 (1 :: real) = Inl RuntimeError
   \<and> NeuralMemory_init ones_init [] 0 0 2 (1 :: real) = Inl ZeroDivisionError
   \<and> NeuralMemory_init ones_init [] 4 4 2 (1 :: real) = Inr scenario_unit"
proof -
  have "NeuralMemory_init ones_init [] 4 4 2 (1 :: real) = Inr scenario_unit"
    by code_simp
  then show ?thesis
    using construction_checks[of "- 1" 4 ones_init "[]" 2 "1 :: real"]
      construction_checks[of 4 "- 1" ones_init "[]" 2 "1 :: real"]
      construction_checks[of 0 0 ones_init "[]" 2 "1 :: real"]
      construction_checks[of 4 4 ones_init "[]" 2 "1 :: real"]
    by simp
qed

text \<open>
  The construction succeeds with chunk size 0, with \<open>dim_in = 0\<close> and with
  \<open>dim_out = 0\<close>.
\<close>

theorem construction_accepts_zero_sizes:
  "NeuralMemory_init ones_init [] 4 4 0 (1 :: real) = Inr (scenario_unit\<lparr>update_chunk_size := 0\<rparr>)
   \<and> \<not> isl (NeuralMemory_init ones_init [] 0 4 2 (1 :: real))
   \<and> \<not> isl (NeuralMemory_init ones_init [] 4 0 2 (1 :: real))"
  by code_simp

end
